theory Spec2Isabelle
  imports Main "HOL-Library.Sublist"
begin

section \<open>Types, values and errors\<close>

text \<open>
  A \<open>reflect.Type\<close> is compared by identity in the Go code (it is a map key). Only three
  shapes matter to the runner: interface types, slice types and everything else.
\<close>

datatype rtype = Interface string | Slice rtype | Other string

datatype kind = KInterface | KSlice | KOther

fun Kind :: "rtype \<Rightarrow> kind" where
  "Kind (Interface n) = KInterface"
| "Kind (Slice t) = KSlice"
| "Kind (Other n) = KOther"

text \<open>\<open>Elem\<close> is only called by the code behind a \<open>Kind() == reflect.Slice\<close> test.\<close>

fun Elem :: "rtype \<Rightarrow> rtype" where
  "Elem (Slice t) = t"
| "Elem t = t"

text \<open>
  Errors: \<open>errors.New(msg)\<close>, \<open>fmt.Errorf("%w type: %v", e, t)\<close> (which wraps \<open>e\<close>) and
  \<open>fmt.Errorf("BUG ...: %v", t)\<close> (which wraps nothing). \<open>Panic\<close> stands for a run-time
  panic of the reflect package.
\<close>

datatype error =
    New string
  | Errorf_w error rtype
  | Errorf string rtype
  | Panic string

definition ErrProducerNil :: error where
  "ErrProducerNil = New ''producer nil''"

definition ErrProducerNotFunc :: error where
  "ErrProducerNotFunc = New ''producer not function''"

definition ErrProducerInvalidReturns :: error where
  "ErrProducerInvalidReturns = New ''producer may only return interfaces and an optional error''"

definition ErrProducerInvalidInputs :: error where
  "ErrProducerInvalidInputs = New ''producer inputs must be interface or slice of interfaces''"

definition ErrMissingDependency :: error where
  "ErrMissingDependency = New ''missing dependency''"

definition ErrNoProducerMakes :: error where
  "ErrNoProducerMakes = New ''no producer makes''"

definition ErrProducerReturnedNil :: error where
  "ErrProducerReturnedNil = New ''producer returned nil value''"

definition ErrNoMain :: error where
  "ErrNoMain = New ''No Main interface provided''"

definition ErrDelayCloserTimeout :: error where
  "ErrDelayCloserTimeout = New ''timeout before all DelayCloser results''"

text \<open>\<open>errors.Is\<close>: walk the chain of wrapped errors, comparing each link with the target.\<close>

fun errors_Is :: "error \<Rightarrow> error \<Rightarrow> bool" where
  "errors_Is (Errorf_w e t) target = (Errorf_w e t = target \<or> errors_Is e target)"
| "errors_Is (New s) target = (New s = target)"
| "errors_Is (Errorf s t) target = (Errorf s t = target)"
| "errors_Is (Panic s) target = (Panic s = target)"

text \<open>
  What the \<open>select\<close> in \<open>close\<close> observes after \<open>DelayCloser.Close(doneChan)\<close>: a value sent
  on the channel (an error or nil), the channel closed, or the timer firing first.
\<close>

datatype signal = Sends "error option" | ChanClosed | TimerFires

text \<open>
  A produced object: which teardown contract it implements (\<open>io.Closer\<close> with the result of
  its \<open>Close()\<close>, \<open>general.DelayCloser\<close> with what its completion channel does, or neither),
  and whether it implements \<open>Main\<close> (with the result of its \<open>Run()\<close>).
\<close>

datatype closing = NotCloser | Closer "error option" | DelayCloser signal

datatype obj = Obj (name: string) (closing: closing) (main: "error option option")

text \<open>A \<open>reflect.Value\<close> held in the store: one interface value or a slice of them.\<close>

datatype rvalue = Single obj | Many "obj list"

text \<open>
  A producer function: its parameter and return types, and what \<open>Call\<close> returns for given
  arguments: the capability results in order (\<open>None\<close> is a nil interface) and the trailing
  error result (read only when the last return type is \<open>error\<close>). \<open>fname\<close> is the name of
  the function. A call is taken to return: a function that panics or never returns, and a
  variadic function, are outside the model.
\<close>

record producer =
  fname :: string
  ins :: "rtype list"
  outs :: "rtype list"
  call :: "rvalue list \<Rightarrow> obj option list \<times> error option"

text \<open>The \<open>interface{}\<close> handed to \<open>add\<close>: nil, something that is not a function, or a function.\<close>

datatype item = NilItem | NonFunc | Func producer

definition errorType :: rtype where
  "errorType = Interface ''error''"

definition mainType :: rtype where
  "mainType = Interface ''runner.Main''"

section \<open>The runner\<close>

text \<open>
  The struct \<open>runner\<close>; \<open>vals\<close> is its field \<open>values\<close>. The two Go maps with scalar values
  are read with the zero default (\<open>0\<close>, \<open>false\<close>) for an absent key, also when the map is nil,
  so they are total functions here. \<open>closeTimeout\<close> is the duration given to the timer of
  \<open>close\<close>; whether the timer fires before a completion arrives is part of the closer
  (\<open>signal\<close>). \<open>invoked\<close> and \<open>produced\<close> are not fields of the Go struct: \<open>invoked\<close>
  records each \<open>provider.Call(in)\<close> in order, with the function called and its arguments;
  \<open>produced\<close> records, in order, each returned value that \<open>handleProvidedValue\<close> accepts
  (the values it passes to \<open>saveIfCloser\<close> and stores).
\<close>

record runner =
  closeTimeout :: nat
  produceCounts :: "rtype \<Rightarrow> int"
  provideSlice :: "rtype \<Rightarrow> bool"
  producers :: "producer list"
  vals :: "rtype \<rightharpoonup> rvalue"
  closers :: "obj list"
  invoked :: "(producer \<times> rvalue list) list"
  produced :: "obj list"

definition defaultCloseTimeout :: nat where
  "defaultCloseTimeout = 20"

definition new :: runner where
  "new = \<lparr> closeTimeout = defaultCloseTimeout, produceCounts = (\<lambda>t. 0),
           provideSlice = (\<lambda>t. False), producers = [], vals = Map.empty,
           closers = [], invoked = [], produced = [] \<rparr>"

subsection \<open>add\<close>

text \<open>The first loop of \<open>add\<close>: validate and count the return types.\<close>

fun add_outs :: "runner \<Rightarrow> rtype list \<Rightarrow> runner \<times> error option" where
  "add_outs r [] = (r, None)"
| "add_outs r (outType # ts) =
     (if Kind outType \<noteq> KInterface then (r, Some ErrProducerInvalidReturns)
      else add_outs (r\<lparr>produceCounts := (produceCounts r)(outType := produceCounts r outType + 1)\<rparr>) ts)"

text \<open>The second loop of \<open>add\<close>; it is given the parameter types last to first.\<close>

fun add_ins :: "runner \<Rightarrow> rtype list \<Rightarrow> runner \<times> error option" where
  "add_ins r [] = (r, None)"
| "add_ins r (inType # ts) =
     (if Kind inType = KSlice \<and> Kind (Elem inType) = KInterface
        then add_ins (r\<lparr>provideSlice := (provideSlice r)(Elem inType := True)\<rparr>) ts
      else if Kind inType = KInterface then add_ins r ts
      else (r, Some ErrProducerInvalidInputs))"

text \<open>The number of returns without an optional trailing \<open>error\<close>.\<close>

definition outCount :: "rtype list \<Rightarrow> nat" where
  "outCount ts = (if length ts > 0 \<and> ts ! (length ts - 1) = errorType
                  then length ts - 1 else length ts)"

fun add :: "runner \<Rightarrow> item \<Rightarrow> runner \<times> error option" where
  "add r NilItem = (r, Some ErrProducerNil)"
| "add r NonFunc = (r, Some ErrProducerNotFunc)"
| "add r (Func producer) =
     (case add_outs r (take (outCount (outs producer)) (outs producer)) of
        (r1, Some err) \<Rightarrow> (r1, Some err)
      | (r1, None) \<Rightarrow>
          (case add_ins r1 (rev (ins producer)) of
             (r2, Some err) \<Rightarrow> (r2, Some err)
           | (r2, None) \<Rightarrow> (r2\<lparr>producers := producers r2 @ [producer]\<rparr>, None)))"

subsection \<open>resolveProvider\<close>

definition findParam :: "runner \<Rightarrow> rtype \<Rightarrow> error + rvalue" where
  "findParam r paramType =
     (if Kind paramType = KSlice \<and> produceCounts r (Elem paramType) > 0
        then Inl (Errorf_w ErrMissingDependency paramType)
      else if Kind paramType \<noteq> KSlice \<and> produceCounts r paramType > 0
        then Inl (Errorf_w ErrMissingDependency paramType)
      else (case vals r paramType of
              None \<Rightarrow> (if Kind paramType \<noteq> KSlice
                         then Inl (Errorf_w ErrNoProducerMakes paramType)
                       else Inr (Many []))
            | Some param \<Rightarrow> Inr param))"

text \<open>The parameter loop of \<open>resolveProvider\<close>: the first failing lookup is returned.\<close>

fun findParams :: "runner \<Rightarrow> rtype list \<Rightarrow> error + rvalue list" where
  "findParams r [] = Inr []"
| "findParams r (t # ts) =
     (case findParam r t of
        Inl err \<Rightarrow> Inl err
      | Inr param \<Rightarrow> (case findParams r ts of
                         Inl err \<Rightarrow> Inl err
                       | Inr rest \<Rightarrow> Inr (param # rest)))"

definition saveIfCloser :: "runner \<Rightarrow> obj \<Rightarrow> runner" where
  "saveIfCloser r v =
     (case closing v of
        Closer res \<Rightarrow> r\<lparr>closers := closers r @ [v]\<rparr>
      | DelayCloser d \<Rightarrow> r\<lparr>closers := closers r @ [v]\<rparr>
      | NotCloser \<Rightarrow> r)"

text \<open>
  \<open>handleProvidedValue\<close>; \<open>providedValueType\<close> is \<open>value.Type()\<close>, the declared return type.
  \<open>reflect.Append\<close> panics on a value that is not a slice.
\<close>

definition handleProvidedValue :: "runner \<Rightarrow> rtype \<Rightarrow> obj \<Rightarrow> runner \<times> error option" where
  "handleProvidedValue r providedValueType v =
     (let waitForCount = produceCounts r providedValueType in
      if waitForCount \<le> 0
        then (r, Some (Errorf ''BUG not waiting for produced type'' providedValueType))
      else
        let r1 = (if waitForCount > 1 \<and> \<not> provideSlice r providedValueType
                  then r\<lparr>provideSlice := (provideSlice r)(providedValueType := True)\<rparr>
                  else r);
            r2 = r1\<lparr>produceCounts := (produceCounts r1)(providedValueType := waitForCount - 1)\<rparr>;
            r3 = saveIfCloser (r2\<lparr>produced := produced r2 @ [v]\<rparr>) v
        in if \<not> provideSlice r3 providedValueType
             then (r3\<lparr>vals := (vals r3)(providedValueType \<mapsto> Single v)\<rparr>, None)
           else
             let providedSliceType = Slice providedValueType in
             (case vals r3 providedSliceType of
                Some (Many xs) \<Rightarrow> (r3\<lparr>vals := (vals r3)(providedSliceType \<mapsto> Many (xs @ [v]))\<rparr>, None)
              | Some (Single x) \<Rightarrow> (r3, Some (Panic ''reflect.Append: value is not a slice''))
              | None \<Rightarrow> (r3\<lparr>vals := (vals r3)(providedSliceType \<mapsto> Many [v])\<rparr>, None)))"

text \<open>
  The result loop of \<open>resolveProvider\<close>, over the declared capability return types and the
  results at the same positions (a missing position reads as nil).
\<close>

fun handleResults :: "runner \<Rightarrow> rtype list \<Rightarrow> obj option list \<Rightarrow> runner \<times> error option" where
  "handleResults r [] results = (r, None)"
| "handleResults r (t # ts) results =
     (case (case results of [] \<Rightarrow> None | x # xs \<Rightarrow> x) of
        None \<Rightarrow> (r, Some (Errorf_w ErrProducerReturnedNil t))
      | Some v \<Rightarrow>
          (case handleProvidedValue r t v of
             (r', Some err) \<Rightarrow> (r', Some err)
           | (r', None) \<Rightarrow> handleResults r' ts (tl results)))"

definition resolveProvider :: "runner \<Rightarrow> producer \<Rightarrow> runner \<times> error option" where
  "resolveProvider r provider =
     (case findParams r (ins provider) of
        Inl err \<Rightarrow> (r, Some err)
      | Inr args \<Rightarrow>
          (let r1 = r\<lparr>invoked := invoked r @ [(provider, args)]\<rparr>;
               results = call provider args;
               resultsCount = length (outs provider);
               hasErr = (resultsCount > 0 \<and> outs provider ! (resultsCount - 1) = errorType)
           in if hasErr \<and> snd results \<noteq> None then (r1, snd results)
              else handleResults r1
                     (take (if hasErr then resultsCount - 1 else resultsCount) (outs provider))
                     (fst results)))"

subsection \<open>build\<close>

text \<open>
  The inner \<open>range\<close> loop of \<open>build\<close> over the pending producers: \<open>Inl\<close> is the early
  \<open>return []error{err}\<close>, \<open>Inr\<close> carries \<open>errs\<close> and \<open>waitingProducers\<close>.
\<close>

fun pass :: "runner \<Rightarrow> producer list \<Rightarrow> error list \<Rightarrow> producer list
             \<Rightarrow> runner \<times> (error + error list \<times> producer list)" where
  "pass r [] errs waitingProducers = (r, Inr (errs, waitingProducers))"
| "pass r (p # ps) errs waitingProducers =
     (case resolveProvider r p of
        (r', None) \<Rightarrow> pass r' ps errs waitingProducers
      | (r', Some err) \<Rightarrow>
          (if errors_Is err ErrMissingDependency
             then pass r' ps (errs @ [err]) (waitingProducers @ [p])
           else (r', Inl err)))"

text \<open>
  No step of a pass touches \<open>r.producers\<close>, and a pass defers at most the producers it was
  given: this is why the outer loop of \<open>build\<close> ends.
\<close>

lemma saveIfCloser_producers [simp]: "producers (saveIfCloser r v) = producers r"
  by (simp add: saveIfCloser_def split: closing.splits)

lemma handleProvidedValue_producers:
  "handleProvidedValue r t v = (r', res) \<Longrightarrow> producers r' = producers r"
  by (auto simp: handleProvidedValue_def Let_def split: if_splits option.splits rvalue.splits)

lemma handleResults_producers:
  "handleResults r ts results = (r', res) \<Longrightarrow> producers r' = producers r"
proof (induction ts arbitrary: r results)
  case Nil
  then show ?case by simp
next
  case (Cons t ts)
  then show ?case
    by (fastforce split: prod.splits option.splits dest: handleProvidedValue_producers)
qed

lemma resolveProvider_producers:
  "resolveProvider r p = (r', res) \<Longrightarrow> producers r' = producers r"
  by (auto simp: resolveProvider_def Let_def split: sum.splits if_splits
           dest: handleResults_producers)

lemma pass_producers:
  "pass r ps errs w = (r', res) \<Longrightarrow> producers r' = producers r"
proof (induction ps arbitrary: r errs w)
  case Nil
  then show ?case by simp
next
  case (Cons p ps)
  then show ?case
    by (fastforce split: prod.splits option.splits if_splits dest: resolveProvider_producers)
qed

lemma pass_waiting_length:
  "pass r ps errs w = (r', Inr (errs', w')) \<Longrightarrow> length w' \<le> length w + length ps"
proof (induction ps arbitrary: r errs w)
  case Nil
  then show ?case by simp
next
  case (Cons p ps)
  then show ?case
    by (fastforce split: prod.splits option.splits if_splits)
qed

lemma pass_shrinks:
  assumes "pass r (producers r) [] [] = (r', Inr (errs, w))"
    and "length w \<noteq> length (producers r')"
  shows "length w < length (producers r)"
  using pass_producers[OF assms(1)] pass_waiting_length[OF assms(1)] assms(2) by simp

text \<open>
  The outer loop of \<open>build\<close>. Each iteration starts with \<open>errs\<close> and \<open>waitingProducers\<close>
  empty (they are nil at first, and reset to \<open>errs[:0]\<close> and \<open>r.producers[:0]\<close> at the end
  of an iteration; the two backing arrays alternate, so a pass never appends into the slice
  it ranges over). A returned slice that is not nil is never empty: the result \<open>[]\<close> stands
  for the nil slice. On success the three fields are set to nil.
\<close>

function build_loop :: "runner \<Rightarrow> runner \<times> error list" where
  "build_loop r =
     (if length (producers r) > 0 then
        (case pass r (producers r) [] [] of
           (r', Inl err) \<Rightarrow> (r', [err])
         | (r', Inr (errs, waitingProducers)) \<Rightarrow>
             (if length waitingProducers = length (producers r') then (r', errs)
              else build_loop (r'\<lparr>producers := waitingProducers\<rparr>)))
      else (r\<lparr>producers := [], produceCounts := (\<lambda>t. 0), provideSlice := (\<lambda>t. False)\<rparr>, []))"
  by pat_completeness auto
termination
  by (relation "measure (\<lambda>r. length (producers r))") (auto dest: pass_shrinks[OF sym])

declare build_loop.simps [simp del]

definition build :: "runner \<Rightarrow> runner \<times> error list" where
  "build r = build_loop r"

subsection \<open>close\<close>

text \<open>
  The loop of \<open>close\<close> over the closers still to visit (the caller passes them last
  recorded first). The second list in the result is not in the Go code: it records the
  objects whose \<open>Close\<close> was called, in call order.
\<close>

fun close_loop :: "obj list \<Rightarrow> error list \<Rightarrow> obj list \<Rightarrow> error list \<times> obj list" where
  "close_loop [] errs closed = (errs, closed)"
| "close_loop (v # vs) errs closed =
     (case closing v of
        Closer res \<Rightarrow>
          (case res of
             Some err \<Rightarrow> close_loop vs (errs @ [err]) (closed @ [v])
           | None \<Rightarrow> close_loop vs errs (closed @ [v]))
      | DelayCloser sig \<Rightarrow>
          (case sig of
             Sends res \<Rightarrow>
               (case res of
                  Some err \<Rightarrow> close_loop vs (errs @ [err]) (closed @ [v])
                | None \<Rightarrow> close_loop vs errs (closed @ [v]))
           | ChanClosed \<Rightarrow> (errs @ [New ''BUG runner DelayCloser doneChan closed''], closed @ [v])
           | TimerFires \<Rightarrow> (errs @ [ErrDelayCloserTimeout], closed @ [v]))
      | NotCloser \<Rightarrow> close_loop vs (errs @ [New ''BUG runner has non closer in closers'']) closed)"

definition close :: "runner \<Rightarrow> error list \<Rightarrow> error list \<times> obj list" where
  "close r errs = close_loop (rev (closers r)) errs []"

subsection \<open>run and Run\<close>

text \<open>
  \<open>run\<close>; the type assertion \<open>mainValue.Interface().(Main)\<close> succeeds on an object that
  implements \<open>Main\<close>. The result is the returned error slice with the record of the
  \<open>Close\<close> calls and the final runner.
\<close>

definition run :: "runner \<Rightarrow> (error list \<times> obj list) \<times> runner" where
  "run r =
     (case build r of (r1, errs) \<Rightarrow>
        if errs \<noteq> [] then (close r1 errs, r1)
        else
          (case vals r1 mainType of
             None \<Rightarrow> (close r1 (errs @ [ErrNoMain]), r1)
           | Some mainValue \<Rightarrow>
               (case (case mainValue of Single v \<Rightarrow> main v | Many vs \<Rightarrow> None) of
                  None \<Rightarrow>
                    (close r1 (errs @ [New ''BUG Main interface found but can not type assert to Main'']), r1)
                | Some res \<Rightarrow>
                    (let r2 = r1\<lparr>vals := Map.empty\<rparr> in
                     (case res of
                        Some err \<Rightarrow> (close r2 (errs @ [err]), r2)
                      | None \<Rightarrow> (close r2 errs, r2))))))"

text \<open>The loop of \<open>Run\<close> over the producers: the first error of \<open>add\<close> is returned alone.\<close>

fun add_all :: "runner \<Rightarrow> item list \<Rightarrow> error + runner" where
  "add_all r [] = Inr r"
| "add_all r (v # vs) =
     (case add r v of
        (r', Some err) \<Rightarrow> Inl err
      | (r', None) \<Rightarrow> add_all r' vs)"

definition Run :: "item list \<Rightarrow> error list" where
  "Run items =
     (case add_all new items of
        Inl err \<Rightarrow> [err]
      | Inr r \<Rightarrow> fst (fst (run r)))"

text \<open>The record of the \<open>Close\<close> calls that \<open>Run\<close> makes; it has none when \<open>add\<close> fails.\<close>

definition Run_closed :: "item list \<Rightarrow> obj list" where
  "Run_closed items =
     (case add_all new items of
        Inl err \<Rightarrow> []
      | Inr r \<Rightarrow> snd (fst (run r)))"

section \<open>Vocabulary of the properties\<close>

text \<open>An object that implements one of the two teardown interfaces.\<close>

definition isCloser :: "obj \<Rightarrow> bool" where
  "isCloser v = (closing v \<noteq> NotCloser)"

text \<open>A closer at which \<open>close\<close> returns from inside its loop.\<close>

definition aborts :: "obj \<Rightarrow> bool" where
  "aborts v = (closing v = DelayCloser ChanClosed \<or> closing v = DelayCloser TimerFires)"

text \<open>
  A producer function as the tests write them: it takes parameters of the types \<open>needs\<close>
  and returns the one object \<open>v\<close> as a value of the interface type \<open>t\<close>.
\<close>

definition makes :: "string \<Rightarrow> rtype list \<Rightarrow> rtype \<Rightarrow> obj \<Rightarrow> producer" where
  "makes n needs t v = \<lparr>fname = n, ins = needs, outs = [t], call = (\<lambda>args. ([Some v], None))\<rparr>"

text \<open>The capability return types of a producer: its returns without a trailing \<open>error\<close>.\<close>

definition returns :: "producer \<Rightarrow> rtype list" where
  "returns p = take (outCount (outs p)) (outs p)"

text \<open>The two checks of \<open>add\<close>: on a return type, and on a parameter type.\<close>

definition validOut :: "producer \<Rightarrow> bool" where
  "validOut p = list_all (\<lambda>t. Kind t = KInterface) (returns p)"

definition validIn :: "rtype \<Rightarrow> bool" where
  "validIn t = ((Kind t = KSlice \<and> Kind (Elem t) = KInterface) \<or> Kind t = KInterface)"

text \<open>An item handed to \<open>Run\<close> is a function with \<open>t\<close> among its capability return types.\<close>

fun declares :: "item \<Rightarrow> rtype \<Rightarrow> bool" where
  "declares (Func p) t = (t \<in> set (returns p))"
| "declares NilItem t = False"
| "declares NonFunc t = False"

text \<open>
  No producer is expected to deliver \<open>t\<close> and the list form of \<open>t\<close> has no value: the state
  of a capability type that no registered producer returns.
\<close>

definition neverMade :: "runner \<Rightarrow> rtype \<Rightarrow> bool" where
  "neverMade r t = (produceCounts r t \<le> 0 \<and> vals r (Slice t) = None)"

text \<open>
  What \<open>run\<close> appends to the error list between \<open>build\<close> and \<open>close\<close>, given the errors
  and the runner that \<open>build\<close> returned.
\<close>

definition mainErrors :: "error list \<Rightarrow> runner \<Rightarrow> error list" where
  "mainErrors berrs r1 =
     (if berrs \<noteq> [] then []
      else (case vals r1 mainType of
              None \<Rightarrow> [ErrNoMain]
            | Some (Many vs) \<Rightarrow> [New ''BUG Main interface found but can not type assert to Main'']
            | Some (Single v) \<Rightarrow>
                (case main v of
                   None \<Rightarrow> [New ''BUG Main interface found but can not type assert to Main'']
                 | Some None \<Rightarrow> []
                 | Some (Some err) \<Rightarrow> [err])))"

text \<open>
  A parameter type whose capability type (for a slice parameter, its element type) still
  has a positive expected count.
\<close>

definition blocked :: "runner \<Rightarrow> rtype \<Rightarrow> bool" where
  "blocked r t = (produceCounts r (if Kind t = KSlice then Elem t else t) > 0)"

text \<open>
  A parameter type that can be bound now: its expected count is not positive, and it is a
  slice type or has a stored value. \<open>bound\<close> is the value it is bound to.
\<close>

definition satisfied :: "runner \<Rightarrow> rtype \<Rightarrow> bool" where
  "satisfied r t = (\<not> blocked r t \<and> (Kind t = KSlice \<or> vals r t \<noteq> None))"

definition bound :: "runner \<Rightarrow> rtype \<Rightarrow> rvalue" where
  "bound r t = (case vals r t of Some param \<Rightarrow> param | None \<Rightarrow> Many [])"

text \<open>
  An attempt on \<open>p\<close> that \<open>build\<close> defers and that has not called \<open>p\<close>: the returned error
  wraps \<open>ErrMissingDependency\<close> and the call record is as before.
\<close>

definition deferredUninvoked :: "runner \<Rightarrow> producer \<Rightarrow> bool" where
  "deferredUninvoked r p =
     (invoked (fst (resolveProvider r p)) = invoked r
      \<and> (case snd (resolveProvider r p) of
            Some err \<Rightarrow> errors_Is err ErrMissingDependency
          | None \<Rightarrow> False))"

text \<open>The two interface types of the tests.\<close>

definition T1 :: rtype where
  "T1 = Interface ''testInterface1''"

definition T2 :: rtype where
  "T2 = Interface ''testInterface2''"

text \<open>
  The singleton slot of \<open>t\<close> is empty and no delivery of \<open>t\<close> will fill it: \<open>t\<close> is marked
  for the list form, or its expected count is not one.
\<close>

definition listForm :: "runner \<Rightarrow> rtype \<Rightarrow> bool" where
  "listForm r t = (vals r t = None \<and> (provideSlice r t \<or> produceCounts r t \<noteq> 1))"

text \<open>The number of values stored under the list form of \<open>t\<close>.\<close>

definition listLen :: "runner \<Rightarrow> rtype \<Rightarrow> int" where
  "listLen r t =
     (case vals r (Slice t) of
        Some (Many xs) \<Rightarrow> int (length xs)
      | Some (Single x) \<Rightarrow> 0
      | None \<Rightarrow> 0)"

text \<open>How many values of type \<open>t\<close> one call of \<open>p\<close> is declared to return.\<close>

definition supplies :: "rtype \<Rightarrow> producer \<Rightarrow> int" where
  "supplies t p = int (count_list (returns p) t)"

text \<open>
  A producer none of whose calls returns an error that wraps \<open>ErrMissingDependency\<close>, and the
  number of calls of \<open>q\<close> made so far.
\<close>

definition neverRaisesMissing :: "producer \<Rightarrow> bool" where
  "neverRaisesMissing p =
     (\<forall>args e. snd (call p args) = Some e \<longrightarrow> \<not> errors_Is e ErrMissingDependency)"

definition calls :: "runner \<Rightarrow> producer \<Rightarrow> nat" where
  "calls r q = count_list (map fst (invoked r)) q"

text \<open>The record \<open>closers\<close> holds the closers among the produced values, in production order.\<close>

definition closersRecorded :: "runner \<Rightarrow> bool" where
  "closersRecorded r = (closers r = filter isCloser (produced r))"

lemmas run_defs = Run_def Run_closed_def run_def build_def build_loop.simps new_def
  outCount_def errorType_def mainType_def resolveProvider_def findParam_def close_def
  handleProvidedValue_def saveIfCloser_def Let_def ErrMissingDependency_def

section \<open>Teardown\<close>

lemma close_loop_append:
  "\<not> list_ex aborts pre \<Longrightarrow>
   close_loop (pre @ rest) errs cl = (case close_loop pre errs cl of (e, c) \<Rightarrow> close_loop rest e c)"
proof (induction pre arbitrary: errs cl)
  case Nil
  then show ?case by simp
next
  case (Cons v pre)
  then show ?case
    by (auto simp: aborts_def split: closing.splits signal.splits option.splits)
qed

lemma close_loop_closed:
  "\<not> list_ex aborts vs \<Longrightarrow> snd (close_loop vs errs cl) = cl @ filter isCloser vs"
proof (induction vs arbitrary: errs cl)
  case Nil
  then show ?case by simp
next
  case (Cons v vs)
  then show ?case
    by (auto simp: aborts_def isCloser_def split: closing.splits signal.splits option.splits)
qed

lemma close_loop_prefix:
  "prefix (snd (close_loop vs errs cl)) (cl @ filter isCloser vs)"
proof (induction vs arbitrary: errs cl)
  case Nil
  then show ?case by simp
next
  case (Cons v vs)
  show ?case
  proof (cases "closing v")
    case NotCloser
    then show ?thesis
      using Cons[of "errs @ [New ''BUG runner has non closer in closers'']" cl]
      by (simp add: isCloser_def)
  next
    case (Closer res)
    then show ?thesis
      using Cons[of _ "cl @ [v]"] by (simp add: isCloser_def split: option.splits)
  next
    case (DelayCloser sig)
    then show ?thesis
      using Cons[of _ "cl @ [v]"] by (simp add: isCloser_def split: option.splits signal.splits)
  qed
qed

lemma close_loop_errs:
  "fst (close_loop vs errs cl) = errs @ fst (close_loop vs [] cl)"
proof (induction vs arbitrary: errs cl)
  case Nil
  then show ?case by simp
next
  case (Cons v vs)
  have a: "\<And>e c. fst (close_loop vs (errs @ [e]) c) = errs @ fst (close_loop vs [e] c)"
    using Cons[of "errs @ [_]"] Cons[of "[_]"] by simp
  show ?case
    by (simp add: a Cons[of errs] split: closing.splits signal.splits option.splits)
qed

lemma scenario_P1_P2:
  assumes "isCloser c1" "isCloser c2"
  shows "Run_closed [Func (makes ''P1'' [] (Interface ''C1'') c1),
                     Func (makes ''P2'' [Interface ''C1''] (Interface ''C2'') c2)]
         = (if aborts c2 then [c2] else [c2, c1])"
  using assms
  by (cases "closing c1"; cases "closing c2")
     (auto simp: run_defs makes_def isCloser_def aborts_def split: signal.splits option.splits)

lemma scenario_P2_P1:
  assumes "isCloser c1" "isCloser c2"
  shows "Run_closed [Func (makes ''P2'' [Interface ''C1''] (Interface ''C2'') c2),
                     Func (makes ''P1'' [] (Interface ''C1'') c1)]
         = (if aborts c2 then [c2] else [c2, c1])"
  using assms
  by (cases "closing c1"; cases "closing c2")
     (auto simp: run_defs makes_def isCloser_def aborts_def split: signal.splits option.splits)

text \<open>
  Claim C4. When \<open>close\<close> reaches a \<open>DelayCloser\<close> whose completion does not arrive before
  the timer fires, it returns at once: the result is the error list as it stood after the
  closers visited before, followed by exactly one \<open>ErrDelayCloserTimeout\<close>, and \<open>Close\<close> has
  been called on the closers visited before and on the one that timed out, on none of those
  that come after it.
\<close>

theorem close_timeout_aborts:
  assumes "rev (closers r) = pre @ v # post"
    and "closing v = DelayCloser TimerFires"
    and "\<not> list_ex aborts pre"
  shows "close r errs = (errs @ fst (close_loop pre [] []) @ [ErrDelayCloserTimeout],
                         filter isCloser pre @ [v])"
proof -
  obtain e c where pc: "close_loop pre errs [] = (e, c)" by force
  have e: "e = errs @ fst (close_loop pre [] [])"
    using close_loop_errs[of pre errs "[]"] pc by simp
  have c: "c = filter isCloser pre"
    using close_loop_closed[OF assms(3), of errs "[]"] pc by simp
  have "close r errs = close_loop (v # post) e c"
    using close_loop_append[OF assms(3), of "v # post" errs "[]"] pc assms(1)
    by (simp add: close_def)
  then show ?thesis using assms(2) e c by simp
qed

theorem close_timeout_aborts_witness:
  "close (new\<lparr>closers := [Obj ''a'' (Closer None) None,
                            Obj ''d'' (DelayCloser TimerFires) None,
                            Obj ''b'' (Closer (Some (New ''b failed''))) None]\<rparr>)
         [New ''earlier'']
     = ([New ''earlier'', New ''b failed'', ErrDelayCloserTimeout],
        [Obj ''b'' (Closer (Some (New ''b failed''))) None,
         Obj ''d'' (DelayCloser TimerFires) None])"
  using close_timeout_aborts
          [of "new\<lparr>closers := [Obj ''a'' (Closer None) None,
                                 Obj ''d'' (DelayCloser TimerFires) None,
                                 Obj ''b'' (Closer (Some (New ''b failed''))) None]\<rparr>"
              "[Obj ''b'' (Closer (Some (New ''b failed''))) None]"
              "Obj ''d'' (DelayCloser TimerFires) None"
              "[Obj ''a'' (Closer None) None]"
              "[New ''earlier'']"]
  by (simp add: aborts_def isCloser_def)

section \<open>The order of the returned errors\<close>

lemma close_errs: "fst (close r errs) = errs @ fst (close r [])"
  using close_loop_errs[of "rev (closers r)" errs "[]"] by (simp add: close_def)

lemma close_vals [simp]: "close (r\<lparr>vals := m\<rparr>) errs = close r errs"
  by (simp add: close_def)

text \<open>
  Claim C7. The error slice that \<open>run\<close> returns is the errors of \<open>build\<close>, then at most one
  error of the Main phase (\<open>ErrNoMain\<close>, or the error that \<open>Main.Run\<close> returned, or none: in
  particular none when \<open>build\<close> failed), then the errors of teardown, which are the same
  whatever came before. \<open>Run\<close> returns that slice, or the single error of a failed \<open>add\<close>.
\<close>

theorem run_errors_phase_order:
  "fst (fst (run r))
     = snd (build r) @ mainErrors (snd (build r)) (fst (build r)) @ fst (close (fst (build r)) [])
   \<and> length (mainErrors (snd (build r)) (fst (build r))) \<le> 1
   \<and> Run items = (case add_all new items of
                     Inl err \<Rightarrow> [err]
                   | Inr r0 \<Rightarrow> snd (build r0) @ mainErrors (snd (build r0)) (fst (build r0))
                                @ fst (close (fst (build r0)) []))"
proof -
  have a: "fst (fst (run r))
     = snd (build r) @ mainErrors (snd (build r)) (fst (build r)) @ fst (close (fst (build r)) [])" for r
  proof (cases "build r")
    case (Pair r1 errs)
    then show ?thesis
      using close_errs[of r1 errs] close_errs[of r1 "[ErrNoMain]"]
            close_errs[of r1 "[New ''BUG Main interface found but can not type assert to Main'']"]
            close_errs[of r1 "[_]"]
      by (auto simp: run_def mainErrors_def Let_def split: option.splits rvalue.splits)
  qed
  have b: "length (mainErrors (snd (build r)) (fst (build r))) \<le> 1"
    by (simp add: mainErrors_def split: option.splits rvalue.splits)
  show ?thesis using a b by (simp add: Run_def split: sum.splits)
qed

theorem run_errors_phase_order_witness:
  "Run [Func (makes ''newMain'' [] mainType
                (Obj ''m'' (Closer (Some (New ''close failed''))) (Some (Some (New ''main failed'')))))]
     = [New ''main failed'', New ''close failed'']
   \<and> Run [Func (makes ''new1Consume2'' [Interface ''T2''] (Interface ''T1'') (Obj ''s1'' NotCloser None))]
     = [Errorf_w ErrNoProducerMakes (Interface ''T2'')]"
  using run_errors_phase_order
          [of new "[Func (makes ''newMain'' [] mainType
                (Obj ''m'' (Closer (Some (New ''close failed''))) (Some (Some (New ''main failed'')))))]"]
        run_errors_phase_order
          [of new "[Func (makes ''new1Consume2'' [Interface ''T2''] (Interface ''T1'') (Obj ''s1'' NotCloser None))]"]
  by (simp add: build_def build_loop.simps new_def outCount_def errorType_def mainType_def
        resolveProvider_def findParam_def close_def handleProvidedValue_def saveIfCloser_def
        Let_def ErrMissingDependency_def ErrNoProducerMakes_def makes_def mainErrors_def)

section \<open>Registration\<close>

lemma add_outs_ok:
  "list_all (\<lambda>t. Kind t = KInterface) ts \<Longrightarrow>
   add_outs r ts = (r\<lparr>produceCounts := (\<lambda>t. produceCounts r t + int (count_list ts t))\<rparr>, None)"
proof (induction ts arbitrary: r)
  case Nil
  then show ?case by simp
next
  case (Cons a ts)
  then show ?case by (auto simp: fun_eq_iff)
qed

lemma add_ins_scan:
  "add_ins r ts =
     (r\<lparr>provideSlice := (\<lambda>t. provideSlice r t \<or> Slice t \<in> set (takeWhile validIn ts))\<rparr>,
      if list_all validIn ts then None else Some ErrProducerInvalidInputs)"
proof (induction ts arbitrary: r)
  case Nil
  then show ?case by simp
next
  case (Cons a ts)
  show ?case
  proof (cases a)
    case (Interface n)
    then show ?thesis using Cons by (simp add: validIn_def)
  next
    case (Slice e)
    then show ?thesis using Cons by (auto simp: validIn_def fun_eq_iff)
  next
    case (Other n)
    then show ?thesis by (simp add: validIn_def)
  qed
qed

text \<open>
  Claim C10. When every capability return type of a function is an interface type and some
  parameter type is neither an interface nor a slice of an interface, \<open>add\<close> returns
  \<open>ErrProducerInvalidInputs\<close> and leaves \<open>producers\<close> (and the stored values and closers) as
  they were, but the counts of the return types stay incremented, once per occurrence, and
  the element types of the slice parameters scanned before the invalid one stay marked in
  \<open>provideSlice\<close>. The scan goes from the last parameter to the first, so these are the
  parameters after the last invalid one.
\<close>

theorem add_invalid_input_no_rollback:
  assumes "validOut p"
    and "\<not> list_all validIn (ins p)"
  shows "snd (add r (Func p)) = Some ErrProducerInvalidInputs
     \<and> producers (fst (add r (Func p))) = producers r
     \<and> vals (fst (add r (Func p))) = vals r
     \<and> closers (fst (add r (Func p))) = closers r
     \<and> (\<forall>t. produceCounts (fst (add r (Func p))) t
              = produceCounts r t + int (count_list (returns p) t))
     \<and> (\<forall>t. provideSlice (fst (add r (Func p))) t
              = (provideSlice r t \<or> Slice t \<in> set (takeWhile validIn (rev (ins p)))))"
  using assms by (simp add: add_outs_ok add_ins_scan validOut_def returns_def)

theorem add_invalid_input_no_rollback_witness:
  "snd (add new (Func \<lparr>fname = ''f'', ins = [Slice (Interface ''A''), Other ''int'', Slice (Interface ''B'')],
                        outs = [Interface ''C'', Interface ''C'', errorType],
                        call = (\<lambda>args. ([], None))\<rparr>)) = Some ErrProducerInvalidInputs
   \<and> producers (fst (add new (Func \<lparr>fname = ''f'', ins = [Slice (Interface ''A''), Other ''int'', Slice (Interface ''B'')],
                        outs = [Interface ''C'', Interface ''C'', errorType],
                        call = (\<lambda>args. ([], None))\<rparr>))) = []
   \<and> produceCounts (fst (add new (Func \<lparr>fname = ''f'', ins = [Slice (Interface ''A''), Other ''int'', Slice (Interface ''B'')],
                        outs = [Interface ''C'', Interface ''C'', errorType],
                        call = (\<lambda>args. ([], None))\<rparr>))) (Interface ''C'') = 2
   \<and> provideSlice (fst (add new (Func \<lparr>fname = ''f'', ins = [Slice (Interface ''A''), Other ''int'', Slice (Interface ''B'')],
                        outs = [Interface ''C'', Interface ''C'', errorType],
                        call = (\<lambda>args. ([], None))\<rparr>))) (Interface ''B'')
   \<and> \<not> provideSlice (fst (add new (Func \<lparr>fname = ''f'', ins = [Slice (Interface ''A''), Other ''int'', Slice (Interface ''B'')],
                        outs = [Interface ''C'', Interface ''C'', errorType],
                        call = (\<lambda>args. ([], None))\<rparr>))) (Interface ''A'')"
proof -
  let ?p = "\<lparr>fname = ''f'', ins = [Slice (Interface ''A''), Other ''int'', Slice (Interface ''B'')],
             outs = [Interface ''C'', Interface ''C'', errorType],
             call = (\<lambda>args. ([], None))\<rparr>"
  have h1: "validOut ?p"
    by (simp add: validOut_def returns_def outCount_def errorType_def)
  have h2: "\<not> list_all validIn (ins ?p)"
    by (simp add: validIn_def)
  have c: "count_list (returns ?p) (Interface ''C'') = 2"
    by (simp add: returns_def outCount_def errorType_def)
  from add_invalid_input_no_rollback[OF h1 h2, of new] c show ?thesis
    by (simp del: add.simps add: new_def validIn_def)
qed

section \<open>Sequence parameters of a type that nothing returns\<close>

lemma saveIfCloser_fields [simp]:
  "produceCounts (saveIfCloser r v) = produceCounts r"
  "provideSlice (saveIfCloser r v) = provideSlice r"
  "vals (saveIfCloser r v) = vals r"
  "invoked (saveIfCloser r v) = invoked r"
  by (simp_all add: saveIfCloser_def split: closing.splits)

lemma handleProvidedValue_neverMade:
  "handleProvidedValue r u v = (r', res) \<Longrightarrow> Kind u = KInterface \<Longrightarrow> neverMade r t \<Longrightarrow>
   neverMade r' t"
  by (auto simp: handleProvidedValue_def neverMade_def Let_def
           split: if_splits option.splits rvalue.splits)

lemma handleResults_neverMade:
  "handleResults r ts results = (r', res) \<Longrightarrow> list_all (\<lambda>t. Kind t = KInterface) ts \<Longrightarrow>
   neverMade r t \<Longrightarrow> neverMade r' t"
proof (induction ts arbitrary: r results)
  case Nil
  then show ?case by simp
next
  case (Cons u ts)
  then show ?case
    by (fastforce split: prod.splits option.splits dest: handleProvidedValue_neverMade)
qed

lemma neverMade_invoked [simp]: "neverMade (r\<lparr>invoked := x\<rparr>) t = neverMade r t"
  by (simp add: neverMade_def)

lemma resolveProvider_neverMade:
  "resolveProvider r p = (r', res) \<Longrightarrow> validOut p \<Longrightarrow> neverMade r t \<Longrightarrow> neverMade r' t"
  by (auto simp: resolveProvider_def Let_def validOut_def returns_def outCount_def
           split: sum.splits if_splits dest: handleResults_neverMade)

lemma pass_neverMade:
  "pass r ps errs w = (r', res) \<Longrightarrow> list_all validOut ps \<Longrightarrow> neverMade r t \<Longrightarrow> neverMade r' t"
proof (induction ps arbitrary: r errs w)
  case Nil
  then show ?case by simp
next
  case (Cons p ps)
  then show ?case
    by (fastforce split: prod.splits option.splits if_splits dest: resolveProvider_neverMade)
qed

lemma handleProvidedValue_invoked:
  "handleProvidedValue r t v = (r', res) \<Longrightarrow> invoked r' = invoked r"
  by (auto simp: handleProvidedValue_def Let_def split: if_splits option.splits rvalue.splits)

lemma handleResults_invoked:
  "handleResults r ts results = (r', res) \<Longrightarrow> invoked r' = invoked r"
proof (induction ts arbitrary: r results)
  case Nil
  then show ?case by simp
next
  case (Cons t ts)
  then show ?case
    by (fastforce split: prod.splits option.splits dest: handleProvidedValue_invoked)
qed

lemma handleResults_invoked_fst:
  "invoked (fst (handleResults r ts results)) = invoked r"
  using handleResults_invoked[of r ts results] by (cases "handleResults r ts results") simp

lemma resolveProvider_deferred:
  "findParams r (ins p) = Inl err \<Longrightarrow> resolveProvider r p = (r, Some err)"
  by (simp add: resolveProvider_def)

lemma resolveProvider_invoked:
  "findParams r (ins p) = Inr args \<Longrightarrow>
   invoked (fst (resolveProvider r p)) = invoked r @ [(p, args)]"
  by (simp add: resolveProvider_def Let_def handleResults_invoked_fst)

lemma findParams_append:
  "findParams r (xs @ ys) =
     (case findParams r xs of
        Inl err \<Rightarrow> Inl err
      | Inr a \<Rightarrow> (case findParams r ys of Inl err \<Rightarrow> Inl err | Inr b \<Rightarrow> Inr (a @ b)))"
  by (induction xs) (auto split: sum.splits)

lemma add_outs_neverMade:
  "add_outs r ts = (r', res) \<Longrightarrow> t \<notin> set ts \<Longrightarrow> neverMade r t \<Longrightarrow> neverMade r' t"
proof (induction ts arbitrary: r)
  case Nil
  then show ?case by simp
next
  case (Cons a ts)
  from Cons.prems show ?case
    using Cons.IH[of "r\<lparr>produceCounts := (produceCounts r)(a := produceCounts r a + 1)\<rparr>"]
    by (auto simp: neverMade_def split: if_splits)
qed

lemma add_ins_neverMade:
  "add_ins r ts = (r', res) \<Longrightarrow> neverMade r' t = neverMade r t"
proof (induction ts arbitrary: r)
  case Nil
  then show ?case by simp
next
  case (Cons a ts)
  then show ?case by (fastforce simp: neverMade_def split: if_splits)
qed

lemma add_outs_valid:
  "add_outs r ts = (r', None) \<Longrightarrow> list_all (\<lambda>t. Kind t = KInterface) ts"
  by (induction ts arbitrary: r) (auto split: if_splits)

lemma add_outs_producers:
  "add_outs r ts = (r', res) \<Longrightarrow> producers r' = producers r"
  by (induction ts arbitrary: r) (auto split: if_splits)

lemma add_ins_producers:
  "add_ins r ts = (r', res) \<Longrightarrow> producers r' = producers r"
  by (induction ts arbitrary: r) (auto split: if_splits)

lemma add_Func_ok:
  assumes "add r (Func p) = (r', None)"
  shows "validOut p \<and> producers r' = producers r @ [p]
         \<and> (neverMade r t \<and> \<not> declares (Func p) t \<longrightarrow> neverMade r' t)"
proof -
  from assms obtain r1 r2 where
    o: "add_outs r (returns p) = (r1, None)" and i: "add_ins r1 (rev (ins p)) = (r2, None)"
    and r': "r' = r2\<lparr>producers := producers r2 @ [p]\<rparr>"
    by (auto simp: returns_def split: prod.splits option.splits)
  have "neverMade r' t = neverMade r2 t" using r' by (simp add: neverMade_def)
  then show ?thesis
    using add_outs_valid[OF o] add_outs_producers[OF o] add_ins_producers[OF i]
          add_outs_neverMade[OF o, of t] add_ins_neverMade[OF i, of t] r'
    by (auto simp: validOut_def)
qed

lemma add_all_neverMade:
  "add_all r items = Inr r' \<Longrightarrow> list_all validOut (producers r) \<Longrightarrow> neverMade r t \<Longrightarrow>
   \<not> list_ex (\<lambda>i. declares i t) items \<Longrightarrow>
   neverMade r' t \<and> list_all validOut (producers r')"
proof (induction items arbitrary: r)
  case Nil
  then show ?case by simp
next
  case (Cons a items)
  from Cons.prems(1) obtain r1 where a: "add r a = (r1, None)" and rest: "add_all r1 items = Inr r'"
    by (auto split: prod.splits option.splits)
  from a obtain p where p: "a = Func p" by (cases a) auto
  from add_Func_ok[OF a[unfolded p], of t] Cons.prems p
  have "neverMade r1 t" "list_all validOut (producers r1)" by auto
  with Cons.IH[OF rest] Cons.prems(4) show ?case by simp
qed

text \<open>
  Claim C5. In a state where no producer is expected to deliver the element type \<open>t\<close> and
  its list form has no value, the lookup of a parameter of type slice of \<open>t\<close> returns the
  empty slice and no error; the parameter loop goes on to the parameters after it, and a
  function with that one parameter is called with the empty slice. This is the state of
  \<open>t\<close> after the registration of producers none of which returns \<open>t\<close>, and every step of
  every pass over registered producers keeps it.
\<close>

theorem empty_sequence_when_never_made:
  "(neverMade r t \<longrightarrow> findParam r (Slice t) = Inr (Many []))
   \<and> (neverMade r t \<longrightarrow>
        findParams r (before @ Slice t # after) =
          (case findParams r before of
             Inl err \<Rightarrow> Inl err
           | Inr a \<Rightarrow> (case findParams r after of
                          Inl err \<Rightarrow> Inl err
                        | Inr b \<Rightarrow> Inr (a @ Many [] # b))))
   \<and> (neverMade r t \<longrightarrow>
        invoked (fst (resolveProvider r (makes n [Slice t] u v)))
          = invoked r @ [(makes n [Slice t] u v, [Many []])])
   \<and> (add_all new items = Inr r0 \<and> \<not> list_ex (\<lambda>i. declares i t) items \<longrightarrow>
        neverMade r0 t \<and> list_all validOut (producers r0))
   \<and> (neverMade r t \<and> list_all validOut ps \<longrightarrow> neverMade (fst (pass r ps errs w)) t)"
proof (intro conjI impI)
  show f: "findParam r (Slice t) = Inr (Many [])" if "neverMade r t"
    using that by (simp add: findParam_def neverMade_def)
  show "findParams r (before @ Slice t # after) =
          (case findParams r before of
             Inl err \<Rightarrow> Inl err
           | Inr a \<Rightarrow> (case findParams r after of
                          Inl err \<Rightarrow> Inl err
                        | Inr b \<Rightarrow> Inr (a @ Many [] # b)))" if "neverMade r t"
    using f[OF that] by (simp add: findParams_append split: sum.splits)
  show "invoked (fst (resolveProvider r (makes n [Slice t] u v)))
          = invoked r @ [(makes n [Slice t] u v, [Many []])]" if "neverMade r t"
    using f[OF that] resolveProvider_invoked[of r "makes n [Slice t] u v" "[Many []]"]
    by (simp add: makes_def)
  show "neverMade r0 t" "list_all validOut (producers r0)"
    if "add_all new items = Inr r0 \<and> \<not> list_ex (\<lambda>i. declares i t) items"
    using add_all_neverMade[of new items r0 t] that by (simp_all add: new_def neverMade_def)
  show "neverMade (fst (pass r ps errs w)) t" if "neverMade r t \<and> list_all validOut ps"
    using pass_neverMade[of r ps errs w _ _ t] that by (cases "pass r ps errs w") simp
qed

theorem empty_sequence_when_never_made_witness:
  "findParam new (Slice (Interface ''T2'')) = Inr (Many [])
   \<and> invoked (fst (resolveProvider new
        (makes ''new1ConsumeSice2'' [Slice (Interface ''T2'')] (Interface ''T1'') (Obj ''s1'' NotCloser None))))
     = [(makes ''new1ConsumeSice2'' [Slice (Interface ''T2'')] (Interface ''T1'') (Obj ''s1'' NotCloser None),
         [Many []])]
   \<and> neverMade (fst (pass new [] [] [])) (Interface ''T2'')"
proof -
  have h: "neverMade new (Interface ''T2'')"
    by (simp add: neverMade_def new_def)
  have i: "invoked new = []"
    by (simp add: new_def)
  from empty_sequence_when_never_made
         [of new "Interface ''T2''" "[]" "[]" "''new1ConsumeSice2''" "Interface ''T1''"
             "Obj ''s1'' NotCloser None" "[]" new "[]" "[]" "[]"] h i
  show ?thesis
    by (simp del: pass.simps)
qed

section \<open>Stalls\<close>

lemma pass_deferred:
  "pass r ps errs w = (r', Inr (errs', w')) \<Longrightarrow>
   \<exists>es ws. errs' = errs @ es \<and> w' = w @ ws \<and> length es = length ws
        \<and> list_all (\<lambda>e. errors_Is e ErrMissingDependency) es \<and> subseq ws ps"
proof (induction ps arbitrary: r errs w)
  case Nil
  then show ?case by simp
next
  case (Cons p ps)
  obtain r1 res where rp: "resolveProvider r p = (r1, res)" by force
  show ?case
  proof (cases res)
    case None
    with Cons.prems rp have "pass r1 ps errs w = (r', Inr (errs', w'))" by simp
    from Cons.IH[OF this] show ?thesis by (auto intro: subseq_Cons')
  next
    case (Some err)
    with Cons.prems rp have isM: "errors_Is err ErrMissingDependency"
      and "pass r1 ps (errs @ [err]) (w @ [p]) = (r', Inr (errs', w'))"
      by (auto split: if_splits)
    from Cons.IH[OF this(2)] obtain es ws where
      "errs' = errs @ err # es" "w' = w @ p # ws" "length es = length ws"
      "list_all (\<lambda>e. errors_Is e ErrMissingDependency) es" "subseq ws ps" by auto
    with isM show ?thesis
      by (intro exI[of _ "err # es"] exI[of _ "p # ws"]) simp
  qed
qed

lemma pass_stall:
  assumes "pass r ps [] [] = (r', Inr (errs, w))" and "length w = length ps"
  shows "w = ps \<and> length errs = length ps \<and> list_all (\<lambda>e. errors_Is e ErrMissingDependency) errs"
  using pass_deferred[OF assms(1)] assms(2) subseq_same_length by auto

lemma mutual_dependency:
  "Run [Func \<lparr>fname = ''A'', ins = [Interface ''X''], outs = [Interface ''Y''], call = fA\<rparr>,
        Func \<lparr>fname = ''B'', ins = [Interface ''Y''], outs = [Interface ''X''], call = fB\<rparr>]
   = [Errorf_w ErrMissingDependency (Interface ''X''), Errorf_w ErrMissingDependency (Interface ''Y'')]"
  by (simp add: run_defs)

text \<open>
  Claim C1. When a pass over the pending producers defers all of them (it resolves none),
  \<open>build\<close> stops and returns the errors of that pass: one per pending producer, each
  wrapping \<open>ErrMissingDependency\<close>. When a pass resolves some producer and fails on none,
  \<open>build\<close> goes on with the deferred ones, which are fewer. In particular, with A (needs
  X, makes Y) and B (needs Y, makes X), whatever the two functions do when called, \<open>Run\<close>
  returns exactly two errors, both wrapping \<open>ErrMissingDependency\<close>.
\<close>

theorem build_stall_reports_pending:
  "(producers r \<noteq> [] \<and> pass r (producers r) [] [] = (r', Inr (errs, waiting))
      \<and> length waiting = length (producers r) \<longrightarrow>
        build r = (r', errs) \<and> waiting = producers r \<and> length errs = length (producers r)
        \<and> list_all (\<lambda>e. errors_Is e ErrMissingDependency) errs)
   \<and> (producers r \<noteq> [] \<and> pass r (producers r) [] [] = (r', Inr (errs, waiting))
      \<and> length waiting \<noteq> length (producers r) \<longrightarrow>
        build r = build (r'\<lparr>producers := waiting\<rparr>) \<and> length waiting < length (producers r))
   \<and> Run [Func \<lparr>fname = ''A'', ins = [Interface ''X''], outs = [Interface ''Y''], call = fA\<rparr>,
           Func \<lparr>fname = ''B'', ins = [Interface ''Y''], outs = [Interface ''X''], call = fB\<rparr>]
      = [Errorf_w ErrMissingDependency (Interface ''X''),
         Errorf_w ErrMissingDependency (Interface ''Y'')]
   \<and> errors_Is (Errorf_w ErrMissingDependency (Interface ''X'')) ErrMissingDependency
   \<and> errors_Is (Errorf_w ErrMissingDependency (Interface ''Y'')) ErrMissingDependency"
proof (intro conjI impI)
  assume a: "producers r \<noteq> [] \<and> pass r (producers r) [] [] = (r', Inr (errs, waiting))
      \<and> length waiting = length (producers r)"
  then have p: "pass r (producers r) [] [] = (r', Inr (errs, waiting))" by simp
  from pass_stall[OF p] a
  show "waiting = producers r" "length errs = length (producers r)"
       "list_all (\<lambda>e. errors_Is e ErrMissingDependency) errs" by simp_all
  from a pass_producers[OF p] show "build r = (r', errs)"
    by (simp add: build_def build_loop.simps[of r])
next
  assume a: "producers r \<noteq> [] \<and> pass r (producers r) [] [] = (r', Inr (errs, waiting))
      \<and> length waiting \<noteq> length (producers r)"
  then have p: "pass r (producers r) [] [] = (r', Inr (errs, waiting))" by simp
  from a pass_producers[OF p] show "build r = build (r'\<lparr>producers := waiting\<rparr>)"
    by (simp add: build_def build_loop.simps[of r])
  from a pass_producers[OF p] pass_shrinks[OF p] show "length waiting < length (producers r)"
    by simp
qed (simp_all add: mutual_dependency ErrMissingDependency_def)

theorem build_stall_reports_pending_witness:
  "build (projr (add_all new [Func (makes ''new1Consume2'' [T2] T1 (Obj ''s1'' NotCloser None)),
                              Func (makes ''new2Consume1'' [T1] T2 (Obj ''s2'' NotCloser None))]))
     = (projr (add_all new [Func (makes ''new1Consume2'' [T2] T1 (Obj ''s1'' NotCloser None)),
                            Func (makes ''new2Consume1'' [T1] T2 (Obj ''s2'' NotCloser None))]),
        [Errorf_w ErrMissingDependency T2, Errorf_w ErrMissingDependency T1])"
proof -
  let ?A = "makes ''new1Consume2'' [T2] T1 (Obj ''s1'' NotCloser None)"
  let ?B = "makes ''new2Consume1'' [T1] T2 (Obj ''s2'' NotCloser None)"
  let ?r = "projr (add_all new [Func ?A, Func ?B])"
  have p: "producers ?r = [?A, ?B]"
    by (simp add: new_def makes_def outCount_def errorType_def T1_def T2_def)
  have q: "pass ?r [?A, ?B] [] []
           = (?r, Inr ([Errorf_w ErrMissingDependency T2, Errorf_w ErrMissingDependency T1], [?A, ?B]))"
    by (simp add: new_def makes_def outCount_def errorType_def T1_def T2_def
          resolveProvider_def findParam_def ErrMissingDependency_def)
  from build_stall_reports_pending
         [of ?r ?r "[Errorf_w ErrMissingDependency T2, Errorf_w ErrMissingDependency T1]"
             "[?A, ?B]"] p q
  show ?thesis by simp
qed

section \<open>Parameter lookup\<close>

lemma findParam_cases:
  "findParam r t =
     (if blocked r t then Inl (Errorf_w ErrMissingDependency t)
      else if satisfied r t then Inr (bound r t)
      else Inl (Errorf_w ErrNoProducerMakes t))"
  by (auto simp: findParam_def blocked_def satisfied_def bound_def split: option.splits)

lemma findParams_cases:
  "findParams r ts =
     (case dropWhile (satisfied r) ts of
        [] \<Rightarrow> Inr (map (bound r) ts)
      | t # rest \<Rightarrow> Inl (if blocked r t then Errorf_w ErrMissingDependency t
                         else Errorf_w ErrNoProducerMakes t))"
proof (induction ts)
  case Nil
  then show ?case by simp
next
  case (Cons a ts)
  show ?case
  proof (cases "satisfied r a")
    case True
    then have "findParam r a = Inr (bound r a)"
      by (simp add: findParam_cases satisfied_def)
    with True Cons show ?thesis
      by (cases "dropWhile (satisfied r) ts") (simp_all del: dropWhile_eq_Nil_conv)
  next
    case False
    then show ?thesis by (simp add: findParam_cases)
  qed
qed

lemma not_missing [simp]:
  "\<not> errors_Is (Errorf_w ErrNoProducerMakes t) ErrMissingDependency"
  "errors_Is (Errorf_w ErrMissingDependency t) ErrMissingDependency"
  "\<not> errors_Is (Errorf_w ErrMissingDependency t) ErrNoProducerMakes"
  "errors_Is (Errorf_w ErrNoProducerMakes t) ErrNoProducerMakes"
  by (simp_all add: ErrNoProducerMakes_def ErrMissingDependency_def)

lemma resolveProvider_first_unbound:
  assumes "dropWhile (satisfied r) (ins p) = t # rest"
  shows "resolveProvider r p
         = (r, Some (if blocked r t then Errorf_w ErrMissingDependency t
                     else Errorf_w ErrNoProducerMakes t))"
proof -
  have "findParams r (ins p) = Inl (if blocked r t then Errorf_w ErrMissingDependency t
                                    else Errorf_w ErrNoProducerMakes t)"
    using assms by (simp add: findParams_cases)
  then show ?thesis by (rule resolveProvider_deferred)
qed

text \<open>
  Claim C2, as amended. The parameters are looked up in declaration order and the first
  one that cannot be bound decides: a parameter cannot be bound when its expected count (of
  its capability type or, for a slice parameter, of its element type) is positive, or when
  it is a bare parameter with no stored value. An attempt is deferred with an error
  wrapping \<open>ErrMissingDependency\<close>, the producer not called, exactly when the first parameter
  that cannot be bound has a positive expected count. Whenever some parameter cannot be
  bound, the attempt leaves the runner as it was and returns the error of the first such
  parameter: \<open>ErrMissingDependency\<close> when its count is positive, \<open>ErrNoProducerMakes\<close>
  otherwise. When every parameter can be bound (in particular when each has count zero and
  a stored value) the producer is called, with the bound values.
\<close>

theorem deferred_iff_first_unbound_blocked:
  "(deferredUninvoked r p
      \<longleftrightarrow> (case dropWhile (satisfied r) (ins p) of [] \<Rightarrow> False | t # rest \<Rightarrow> blocked r t))
   \<and> (list_all (satisfied r) (ins p) \<longrightarrow>
        invoked (fst (resolveProvider r p)) = invoked r @ [(p, map (bound r) (ins p))])
   \<and> (list_all (\<lambda>t. \<not> blocked r t \<and> vals r t \<noteq> None) (ins p) \<longrightarrow>
        invoked (fst (resolveProvider r p)) = invoked r @ [(p, map (\<lambda>t. the (vals r t)) (ins p))])
   \<and> (dropWhile (satisfied r) (ins p) = u # others \<longrightarrow>
        resolveProvider r p
          = (r, Some (if blocked r u then Errorf_w ErrMissingDependency u
                      else Errorf_w ErrNoProducerMakes u)))"
proof (intro conjI impI)
  show "resolveProvider r p
          = (r, Some (if blocked r u then Errorf_w ErrMissingDependency u
                      else Errorf_w ErrNoProducerMakes u))"
    if "dropWhile (satisfied r) (ins p) = u # others"
    using that by (rule resolveProvider_first_unbound)
  show "deferredUninvoked r p
      \<longleftrightarrow> (case dropWhile (satisfied r) (ins p) of [] \<Rightarrow> False | t # rest \<Rightarrow> blocked r t)"
  proof (cases "dropWhile (satisfied r) (ins p)")
    case Nil
    then have "findParams r (ins p) = Inr (map (bound r) (ins p))"
      by (simp del: dropWhile_eq_Nil_conv add: findParams_cases)
    from resolveProvider_invoked[OF this] Nil show ?thesis
      by (simp del: dropWhile_eq_Nil_conv add: deferredUninvoked_def)
  next
    case (Cons t rest)
    then have "findParams r (ins p) = Inl (if blocked r t then Errorf_w ErrMissingDependency t
                         else Errorf_w ErrNoProducerMakes t)"
      by (simp add: findParams_cases)
    from resolveProvider_deferred[OF this] Cons show ?thesis
      by (simp add: deferredUninvoked_def ErrMissingDependency_def ErrNoProducerMakes_def)
  qed
  show a: "invoked (fst (resolveProvider r p)) = invoked r @ [(p, map (bound r) (ins p))]"
    if "list_all (satisfied r) (ins p)" for r p
  proof -
    from that have "dropWhile (satisfied r) (ins p) = []"
      by (simp add: list_all_iff)
    then have "findParams r (ins p) = Inr (map (bound r) (ins p))"
      by (simp del: dropWhile_eq_Nil_conv add: findParams_cases)
    from resolveProvider_invoked[OF this] show ?thesis .
  qed
  show "invoked (fst (resolveProvider r p)) = invoked r @ [(p, map (\<lambda>t. the (vals r t)) (ins p))]"
    if h: "list_all (\<lambda>t. \<not> blocked r t \<and> vals r t \<noteq> None) (ins p)"
  proof -
    from h have s: "list_all (satisfied r) (ins p)"
      by (simp add: list_all_iff satisfied_def)
    from h have "map (bound r) (ins p) = map (\<lambda>t. the (vals r t)) (ins p)"
      by (auto simp: list_all_iff bound_def)
    with a[OF s] show ?thesis by simp
  qed
qed

theorem deferred_iff_first_unbound_blocked_witness:
  "deferredUninvoked (new\<lparr>produceCounts := (\<lambda>t. 0)(T2 := 1)\<rparr>)
     (makes ''new1Consume2'' [T2] T1 (Obj ''s1'' NotCloser None))
   \<and> \<not> deferredUninvoked (new\<lparr>vals := [T2 \<mapsto> Single (Obj ''s2'' NotCloser None)]\<rparr>)
         (makes ''new1Consume2'' [T2] T1 (Obj ''s1'' NotCloser None))
   \<and> invoked (fst (resolveProvider (new\<lparr>vals := [T2 \<mapsto> Single (Obj ''s2'' NotCloser None)]\<rparr>)
                       (makes ''new1Consume2'' [T2] T1 (Obj ''s1'' NotCloser None))))
     = [(makes ''new1Consume2'' [T2] T1 (Obj ''s1'' NotCloser None),
         [Single (Obj ''s2'' NotCloser None)])]
   \<and> resolveProvider new (makes ''new1Consume2'' [T2] T1 (Obj ''s1'' NotCloser None))
     = (new, Some (Errorf_w ErrNoProducerMakes T2))"
  using deferred_iff_first_unbound_blocked
          [of "new\<lparr>produceCounts := (\<lambda>t. 0)(T2 := 1)\<rparr>"
              "makes ''new1Consume2'' [T2] T1 (Obj ''s1'' NotCloser None)"]
        deferred_iff_first_unbound_blocked
          [of "new\<lparr>vals := [T2 \<mapsto> Single (Obj ''s2'' NotCloser None)]\<rparr>"
              "makes ''new1Consume2'' [T2] T1 (Obj ''s1'' NotCloser None)"]
        deferred_iff_first_unbound_blocked
          [of new "makes ''new1Consume2'' [T2] T1 (Obj ''s1'' NotCloser None)" T2 "[]"]
  by (simp add: new_def makes_def satisfied_def blocked_def bound_def T1_def T2_def)

text \<open>
  The claim as stated fails for a producer with the parameters X and Y, registered with a
  producer of Y: at its first attempt the count of Y is positive, yet the attempt is not
  deferred; X, which nothing makes, comes first and the attempt fails with
  \<open>ErrNoProducerMakes\<close>.
\<close>

theorem deferred_iff_some_blocked_counterexample:
  "\<not> (deferredUninvoked
         (projr (add_all new
            [Func (makes ''needsXY'' [Interface ''X'', Interface ''Y''] (Interface ''Z'') (Obj ''z'' NotCloser None)),
             Func (makes ''makesY'' [] (Interface ''Y'') (Obj ''y'' NotCloser None))]))
         (makes ''needsXY'' [Interface ''X'', Interface ''Y''] (Interface ''Z'') (Obj ''z'' NotCloser None))
       \<longleftrightarrow>
       list_ex (blocked
         (projr (add_all new
            [Func (makes ''needsXY'' [Interface ''X'', Interface ''Y''] (Interface ''Z'') (Obj ''z'' NotCloser None)),
             Func (makes ''makesY'' [] (Interface ''Y'') (Obj ''y'' NotCloser None))])))
         (ins (makes ''needsXY'' [Interface ''X'', Interface ''Y''] (Interface ''Z'') (Obj ''z'' NotCloser None))))
   \<and> Run [Func (makes ''needsXY'' [Interface ''X'', Interface ''Y''] (Interface ''Z'') (Obj ''z'' NotCloser None)),
           Func (makes ''makesY'' [] (Interface ''Y'') (Obj ''y'' NotCloser None))]
      = [Errorf_w ErrNoProducerMakes (Interface ''X'')]"
  by (simp add: run_defs deferredUninvoked_def makes_def blocked_def ErrNoProducerMakes_def)

section \<open>A bare parameter of a type that nothing will deliver\<close>

lemma bare_scenario_1:
  "Run [Func (makes ''new1Consume2'' [T2] T1 vc), Func (makes ''new2'' [] T2 v1), Func (makes ''new2'' [] T2 v2)]
   = Errorf_w ErrNoProducerMakes T2 # fst (close (new\<lparr>closers := filter isCloser [v1, v2]\<rparr>) [])"
  by (cases "closing v1"; cases "closing v2")
     (auto simp: run_defs makes_def isCloser_def T1_def T2_def split: signal.splits option.splits)

lemma bare_scenario_2:
  "Run [Func (makes ''new2'' [] T2 v1), Func (makes ''new1Consume2'' [T2] T1 vc), Func (makes ''new2'' [] T2 v2)]
   = Errorf_w ErrNoProducerMakes T2 # fst (close (new\<lparr>closers := filter isCloser [v1, v2]\<rparr>) [])"
  by (cases "closing v1"; cases "closing v2")
     (auto simp: run_defs makes_def isCloser_def T1_def T2_def split: signal.splits option.splits)

lemma bare_scenario_3:
  "Run [Func (makes ''new2'' [] T2 v1), Func (makes ''new2'' [] T2 v2), Func (makes ''new1Consume2'' [T2] T1 vc)]
   = Errorf_w ErrNoProducerMakes T2 # fst (close (new\<lparr>closers := filter isCloser [v1, v2]\<rparr>) [])"
  by (cases "closing v1"; cases "closing v2")
     (auto simp: run_defs makes_def isCloser_def T1_def T2_def split: signal.splits option.splits)

lemma first_unbound:
  assumes "\<not> satisfied r t"
  shows "dropWhile (satisfied r) (before @ t # after) \<noteq> []
         \<and> hd (dropWhile (satisfied r) (before @ t # after)) \<in> set (before @ [t])
         \<and> \<not> satisfied r (hd (dropWhile (satisfied r) (before @ t # after)))"
proof -
  have m: "t \<in> set (before @ [t])" by simp
  have e: "dropWhile (satisfied r) (before @ t # after)
           = dropWhile (satisfied r) (before @ [t]) @ after"
    using dropWhile_append1[of t "before @ [t]" "satisfied r" after] m assms by simp
  have n: "dropWhile (satisfied r) (before @ [t]) \<noteq> []"
    using assms by (simp del: dropWhile_eq_Nil_conv add: dropWhile_append)
  have h: "hd (dropWhile (satisfied r) (before @ t # after)) = hd (dropWhile (satisfied r) (before @ [t]))"
    using e n by simp
  have "hd (dropWhile (satisfied r) (before @ [t])) \<in> set (dropWhile (satisfied r) (before @ [t]))"
    using n by (rule hd_in_set)
  then have i: "hd (dropWhile (satisfied r) (before @ [t])) \<in> set (before @ [t])"
    by (rule set_dropWhileD)
  from hd_dropWhile[OF n] h i e n show ?thesis by simp
qed

lemma bare_unbound_fails:
  "(ins p = before @ t # after \<and> Kind t \<noteq> KSlice \<and> produceCounts r t = 0 \<and> vals r t = None
      \<and> list_all (\<lambda>u. \<not> blocked r u) before \<longrightarrow>
        hd (dropWhile (satisfied r) (ins p)) \<in> set (before @ [t])
        \<and> resolveProvider r p
            = (r, Some (Errorf_w ErrNoProducerMakes (hd (dropWhile (satisfied r) (ins p)))))
        \<and> pass r (p # ps) errs w
            = (r, Inl (Errorf_w ErrNoProducerMakes (hd (dropWhile (satisfied r) (ins p)))))
        \<and> (producers r = p # ps \<longrightarrow>
             build r = (r, [Errorf_w ErrNoProducerMakes (hd (dropWhile (satisfied r) (ins p)))])))"
proof (intro conjI impI)
  assume a: "ins p = before @ t # after \<and> Kind t \<noteq> KSlice \<and> produceCounts r t = 0 \<and> vals r t = None
      \<and> list_all (\<lambda>u. \<not> blocked r u) before"
  let ?u = "hd (dropWhile (satisfied r) (ins p))"
  from a have nb: "\<not> blocked r t" by (simp add: blocked_def)
  from a have ns: "\<not> satisfied r t" by (simp add: satisfied_def)
  from first_unbound[OF ns, of before after] a
  have ne: "dropWhile (satisfied r) (ins p) \<noteq> []" and u: "?u \<in> set (before @ [t])" by simp_all
  from u a nb have nbu: "\<not> blocked r ?u" by (auto simp: list_all_iff)
  from ne obtain rest where d: "dropWhile (satisfied r) (ins p) = ?u # rest"
    by (cases "dropWhile (satisfied r) (ins p)") auto
  have f: "findParams r (ins p) = Inl (Errorf_w ErrNoProducerMakes ?u)"
    using nbu by (subst findParams_cases, subst d) simp
  show "?u \<in> set (before @ [t])" by (rule u)
  show rp: "resolveProvider r p = (r, Some (Errorf_w ErrNoProducerMakes ?u))"
    by (rule resolveProvider_deferred[OF f])
  show ps: "pass r (p # ps) errs w = (r, Inl (Errorf_w ErrNoProducerMakes ?u))" for ps errs w
    using rp by (simp add: ErrNoProducerMakes_def ErrMissingDependency_def)
  show "build r = (r, [Errorf_w ErrNoProducerMakes ?u])" if "producers r = p # ps"
    using that ps[of ps "[]" "[]"] by (simp add: build_def build_loop.simps[of r])
qed


lemma bare_unbound_decides:
  "(ins p = before @ t # after \<and> Kind t \<noteq> KSlice \<and> produceCounts r t = 0 \<and> vals r t = None \<longrightarrow>
        hd (dropWhile (satisfied r) (ins p)) \<in> set (before @ [t])
        \<and> resolveProvider r p
            = (r, Some (if blocked r (hd (dropWhile (satisfied r) (ins p)))
                        then Errorf_w ErrMissingDependency (hd (dropWhile (satisfied r) (ins p)))
                        else Errorf_w ErrNoProducerMakes (hd (dropWhile (satisfied r) (ins p)))))
        \<and> (blocked r (hd (dropWhile (satisfied r) (ins p))) \<longrightarrow>
             pass r (p # ps) errs w
               = pass r ps (errs @ [Errorf_w ErrMissingDependency (hd (dropWhile (satisfied r) (ins p)))])
                   (w @ [p])))"
proof (intro conjI impI)
  assume a: "ins p = before @ t # after \<and> Kind t \<noteq> KSlice \<and> produceCounts r t = 0 \<and> vals r t = None"
  let ?u = "hd (dropWhile (satisfied r) (ins p))"
  from a have ns: "\<not> satisfied r t" by (simp add: satisfied_def)
  from first_unbound[OF ns, of before after] a
  have ne: "dropWhile (satisfied r) (ins p) \<noteq> []" and u: "?u \<in> set (before @ [t])" by simp_all
  from ne obtain rest where d: "dropWhile (satisfied r) (ins p) = ?u # rest"
    by (cases "dropWhile (satisfied r) (ins p)") auto
  show "?u \<in> set (before @ [t])" by (rule u)
  show rp: "resolveProvider r p
            = (r, Some (if blocked r ?u then Errorf_w ErrMissingDependency ?u
                        else Errorf_w ErrNoProducerMakes ?u))"
    by (rule resolveProvider_first_unbound[OF d])
  show "pass r (p # ps) errs w = pass r ps (errs @ [Errorf_w ErrMissingDependency ?u]) (w @ [p])"
    if "blocked r ?u"
    using that rp by (simp add: ErrMissingDependency_def)
qed

lemma pass_append:
  "pass r (xs @ ys) errs w =
     (case pass r xs errs w of
        (r', Inl err) \<Rightarrow> (r', Inl err)
      | (r', Inr (es, ws)) \<Rightarrow> pass r' ys es ws)"
proof (induction xs arbitrary: r errs w)
  case Nil
  then show ?case by simp
next
  case (Cons x xs)
  then show ?case by (auto split: prod.splits option.splits sum.splits)
qed

lemma bare_unbound_fails_build:
  assumes "ins p = before @ t # after \<and> Kind t \<noteq> KSlice \<and> produceCounts r t = 0 \<and> vals r t = None
      \<and> list_all (\<lambda>u. \<not> blocked r u) before"
    and "producers r0 = earlier @ p # ps"
    and "pass r0 earlier [] [] = (r, Inr (es, ws))"
  shows "build r0 = (r, [Errorf_w ErrNoProducerMakes (hd (dropWhile (satisfied r) (ins p)))])"
proof -
  from bare_unbound_fails[of p before t after r ps es ws] assms(1)
  have "pass r (p # ps) es ws
        = (r, Inl (Errorf_w ErrNoProducerMakes (hd (dropWhile (satisfied r) (ins p)))))"
    by blast
  with assms(3) have "pass r0 (producers r0) [] []
        = (r, Inl (Errorf_w ErrNoProducerMakes (hd (dropWhile (satisfied r) (ins p)))))"
    by (simp only: assms(2) pass_append split: prod.splits) simp
  with assms(2) show ?thesis
    by (simp add: build_def build_loop.simps[of r0])
qed

text \<open>
  Claim C6, as amended. Take a producer with a bare (non-slice) parameter whose type has
  expected count zero and no stored value. Its attempt does not call the producer and
  leaves the runner as it was; the result is the error of the first parameter in
  declaration order that cannot be bound, which is that parameter or one declared before
  it: \<open>ErrMissingDependency\<close> when the count of that first parameter is positive (the
  producer is then put among the waiting ones and the pass goes on), \<open>ErrNoProducerMakes\<close>
  otherwise. When no parameter declared before the bare one has a positive expected count,
  the attempt fails with an error wrapping \<open>ErrNoProducerMakes\<close>, the pass stops there and
  \<open>build\<close> returns that single error, wherever the producer stands among the pending
  ones of the pass. In particular, with two producers without parameters
  that each return a value of one capability and a third whose only parameter is that
  capability, bare, in any of the three registration orders, \<open>Run\<close> returns one error of
  resolution, wrapping \<open>ErrNoProducerMakes\<close>, followed only by the errors of closing the
  two values produced: none when they are not closers.
\<close>

theorem no_producer_makes_fails_at_once:
  "(ins p = before @ t # after \<and> Kind t \<noteq> KSlice \<and> produceCounts r t = 0 \<and> vals r t = None
      \<and> list_all (\<lambda>u. \<not> blocked r u) before \<longrightarrow>
        hd (dropWhile (satisfied r) (ins p)) \<in> set (before @ [t])
        \<and> resolveProvider r p
            = (r, Some (Errorf_w ErrNoProducerMakes (hd (dropWhile (satisfied r) (ins p)))))
        \<and> pass r (p # ps) errs w
            = (r, Inl (Errorf_w ErrNoProducerMakes (hd (dropWhile (satisfied r) (ins p)))))
        \<and> (producers r = p # ps \<longrightarrow>
             build r = (r, [Errorf_w ErrNoProducerMakes (hd (dropWhile (satisfied r) (ins p)))]))
        \<and> (producers r0 = earlier @ p # ps \<and> pass r0 earlier [] [] = (r, Inr (es, ws)) \<longrightarrow>
             build r0 = (r, [Errorf_w ErrNoProducerMakes (hd (dropWhile (satisfied r) (ins p)))])))
   \<and> (ins p = before @ t # after \<and> Kind t \<noteq> KSlice \<and> produceCounts r t = 0 \<and> vals r t = None \<longrightarrow>
        hd (dropWhile (satisfied r) (ins p)) \<in> set (before @ [t])
        \<and> resolveProvider r p
            = (r, Some (if blocked r (hd (dropWhile (satisfied r) (ins p)))
                        then Errorf_w ErrMissingDependency (hd (dropWhile (satisfied r) (ins p)))
                        else Errorf_w ErrNoProducerMakes (hd (dropWhile (satisfied r) (ins p)))))
        \<and> (blocked r (hd (dropWhile (satisfied r) (ins p))) \<longrightarrow>
             pass r (p # ps) errs w
               = pass r ps (errs @ [Errorf_w ErrMissingDependency (hd (dropWhile (satisfied r) (ins p)))])
                   (w @ [p])))
   \<and> Run [Func (makes ''new1Consume2'' [T2] T1 vc), Func (makes ''new2'' [] T2 v1),
           Func (makes ''new2'' [] T2 v2)]
      = Errorf_w ErrNoProducerMakes T2 # fst (close (new\<lparr>closers := filter isCloser [v1, v2]\<rparr>) [])
   \<and> Run [Func (makes ''new2'' [] T2 v1), Func (makes ''new1Consume2'' [T2] T1 vc),
           Func (makes ''new2'' [] T2 v2)]
      = Errorf_w ErrNoProducerMakes T2 # fst (close (new\<lparr>closers := filter isCloser [v1, v2]\<rparr>) [])
   \<and> Run [Func (makes ''new2'' [] T2 v1), Func (makes ''new2'' [] T2 v2),
           Func (makes ''new1Consume2'' [T2] T1 vc)]
      = Errorf_w ErrNoProducerMakes T2 # fst (close (new\<lparr>closers := filter isCloser [v1, v2]\<rparr>) [])
   \<and> fst (close (new\<lparr>closers := filter isCloser [Obj a NotCloser m, Obj b NotCloser n]\<rparr>) []) = []"
proof -
  have e: "fst (close (new\<lparr>closers := filter isCloser [Obj a NotCloser m, Obj b NotCloser n]\<rparr>) []) = []"
    by (simp add: isCloser_def close_def)
  show ?thesis
    using bare_unbound_fails[of p before t after r ps errs w]
          bare_unbound_decides[of p before t after r ps errs w]
          bare_unbound_fails_build[of p before t after r r0 earlier ps es ws]
          bare_scenario_1[of vc v1 v2] bare_scenario_2[of v1 vc v2] bare_scenario_3[of v1 v2 vc] e
    by blast
qed

theorem no_producer_makes_fails_at_once_witness:
  "resolveProvider new (makes ''new1Consume2'' [T2] T1 (Obj ''s1'' NotCloser None))
     = (new, Some (Errorf_w ErrNoProducerMakes T2))
   \<and> pass new [makes ''new1Consume2'' [T2] T1 (Obj ''s1'' NotCloser None)] [] []
     = (new, Inl (Errorf_w ErrNoProducerMakes T2))
   \<and> resolveProvider (new\<lparr>produceCounts := (\<lambda>t. 0)(T2 := 1)\<rparr>)
         (makes ''needsT2T1'' [T2, T1] (Interface ''Z'') (Obj ''z'' NotCloser None))
     = (new\<lparr>produceCounts := (\<lambda>t. 0)(T2 := 1)\<rparr>, Some (Errorf_w ErrMissingDependency T2))"
proof -
  let ?p = "makes ''new1Consume2'' [T2] T1 (Obj ''s1'' NotCloser None)"
  let ?q = "makes ''needsT2T1'' [T2, T1] (Interface ''Z'') (Obj ''z'' NotCloser None)"
  let ?r = "new\<lparr>produceCounts := (\<lambda>t. 0)(T2 := 1)\<rparr>"
  have h: "ins ?p = [] @ T2 # [] \<and> Kind T2 \<noteq> KSlice \<and> produceCounts new T2 = 0 \<and> vals new T2 = None
           \<and> list_all (\<lambda>u. \<not> blocked new u) []"
    by (simp add: makes_def T2_def new_def)
  have d: "hd (dropWhile (satisfied new) (ins ?p)) = T2"
    by (simp add: makes_def T2_def new_def satisfied_def)
  have h': "ins ?q = [T2] @ T1 # [] \<and> Kind T1 \<noteq> KSlice \<and> produceCounts ?r T1 = 0 \<and> vals ?r T1 = None"
    by (simp add: makes_def T1_def T2_def new_def)
  have d': "hd (dropWhile (satisfied ?r) (ins ?q)) = T2" "blocked ?r T2"
    by (simp_all add: makes_def T1_def T2_def new_def satisfied_def blocked_def)
  from no_producer_makes_fails_at_once[of ?p "[]" T2 "[]" new "[]" "[]" "[]"]
       no_producer_makes_fails_at_once[of ?q "[T2]" T1 "[]" ?r "[]" "[]" "[]"] h d h' d'
  show ?thesis by (simp del: pass.simps)
qed

text \<open>
  The claim as stated fails for a producer with the parameters Y and X, registered with a
  producer of Y: X has count zero and no value, yet the first attempt is deferred with
  \<open>ErrMissingDependency\<close> for Y, which comes first.
\<close>

theorem no_producer_makes_first_attempt_counterexample:
  "produceCounts (projr (add_all new
       [Func (makes ''needsYX'' [Interface ''Y'', Interface ''X''] (Interface ''Z'') (Obj ''z'' NotCloser None)),
        Func (makes ''makesY'' [] (Interface ''Y'') (Obj ''y'' NotCloser None))])) (Interface ''X'') = 0
   \<and> vals (projr (add_all new
       [Func (makes ''needsYX'' [Interface ''Y'', Interface ''X''] (Interface ''Z'') (Obj ''z'' NotCloser None)),
        Func (makes ''makesY'' [] (Interface ''Y'') (Obj ''y'' NotCloser None))])) (Interface ''X'') = None
   \<and> snd (resolveProvider (projr (add_all new
       [Func (makes ''needsYX'' [Interface ''Y'', Interface ''X''] (Interface ''Z'') (Obj ''z'' NotCloser None)),
        Func (makes ''makesY'' [] (Interface ''Y'') (Obj ''y'' NotCloser None))]))
       (makes ''needsYX'' [Interface ''Y'', Interface ''X''] (Interface ''Z'') (Obj ''z'' NotCloser None)))
     = Some (Errorf_w ErrMissingDependency (Interface ''Y''))
   \<and> \<not> errors_Is (Errorf_w ErrMissingDependency (Interface ''Y'')) ErrNoProducerMakes
   \<and> deferredUninvoked (projr (add_all new
       [Func (makes ''needsYX'' [Interface ''Y'', Interface ''X''] (Interface ''Z'') (Obj ''z'' NotCloser None)),
        Func (makes ''makesY'' [] (Interface ''Y'') (Obj ''y'' NotCloser None))]))
       (makes ''needsYX'' [Interface ''Y'', Interface ''X''] (Interface ''Z'') (Obj ''z'' NotCloser None))"
  by (simp add: run_defs deferredUninvoked_def makes_def ErrNoProducerMakes_def)

section \<open>Two producers of Main\<close>

lemma handleProvidedValue_listForm:
  "handleProvidedValue r u v = (r', res) \<Longrightarrow> Kind t = KInterface \<Longrightarrow> listForm r t \<Longrightarrow>
   listForm r' t"
  by (cases t)
     (auto simp: handleProvidedValue_def listForm_def Let_def
           split: if_splits option.splits rvalue.splits)

lemma handleProvidedValue_ok:
  assumes "handleProvidedValue r u v = (r', None)" "Kind u = KInterface" "Kind t = KInterface"
    "listForm r t"
  shows "produceCounts r' t = produceCounts r t - (if u = t then 1 else 0)
         \<and> listLen r' t = listLen r t + (if u = t then 1 else 0)"
  using assms
  by (cases t; cases u)
     (auto simp: handleProvidedValue_def listForm_def listLen_def Let_def
           split: if_splits option.splits rvalue.splits)

lemma handleProvidedValue_not_missing:
  "handleProvidedValue r u v = (r', Some e) \<Longrightarrow> \<not> errors_Is e ErrMissingDependency"
  by (auto simp: handleProvidedValue_def Let_def ErrMissingDependency_def
           split: if_splits option.splits rvalue.splits)

lemma handleResults_listForm:
  "handleResults r ts results = (r', res) \<Longrightarrow> Kind t = KInterface \<Longrightarrow> listForm r t \<Longrightarrow>
   listForm r' t"
proof (induction ts arbitrary: r results)
  case Nil
  then show ?case by simp
next
  case (Cons u ts)
  then show ?case
    by (fastforce split: prod.splits option.splits dest: handleProvidedValue_listForm)
qed

lemma handleResults_not_missing:
  "handleResults r ts results = (r', Some e) \<Longrightarrow> \<not> errors_Is e ErrMissingDependency"
proof (induction ts arbitrary: r results)
  case Nil
  then show ?case by simp
next
  case (Cons u ts)
  then show ?case
    by (fastforce simp: ErrMissingDependency_def ErrProducerReturnedNil_def
          split: prod.splits option.splits dest: handleProvidedValue_not_missing)
qed

lemma handleResults_ok:
  "handleResults r ts results = (r', None) \<Longrightarrow> list_all (\<lambda>u. Kind u = KInterface) ts \<Longrightarrow>
   Kind t = KInterface \<Longrightarrow> listForm r t \<Longrightarrow>
   produceCounts r' t = produceCounts r t - int (count_list ts t)
   \<and> listLen r' t = listLen r t + int (count_list ts t)"
proof (induction ts arbitrary: r results)
  case Nil
  then show ?case by simp
next
  case (Cons u ts)
  from Cons.prems(1) obtain v r1 where
    v: "(case results of [] \<Rightarrow> None | x # xs \<Rightarrow> x) = Some v"
    and h: "handleProvidedValue r u v = (r1, None)"
    and rest: "handleResults r1 ts (tl results) = (r', None)"
    by (auto split: option.splits prod.splits)
  from Cons.prems have ku: "Kind u = KInterface" and kts: "list_all (\<lambda>u. Kind u = KInterface) ts"
    by simp_all
  from handleProvidedValue_ok[OF h ku Cons.prems(3,4)]
       handleProvidedValue_listForm[OF h Cons.prems(3,4)]
       Cons.IH[OF rest kts Cons.prems(3)]
  show ?case by auto
qed

lemma listForm_invoked [simp]: "listForm (r\<lparr>invoked := x\<rparr>) t = listForm r t"
  by (simp add: listForm_def)

lemma listLen_invoked [simp]: "listLen (r\<lparr>invoked := x\<rparr>) t = listLen r t"
  by (simp add: listLen_def)

lemma resolveProvider_listForm:
  "resolveProvider r p = (r', res) \<Longrightarrow> Kind t = KInterface \<Longrightarrow> listForm r t \<Longrightarrow>
   listForm r' t"
  by (auto simp: resolveProvider_def Let_def split: sum.splits if_splits
           dest: handleResults_listForm)

text \<open>The result types that \<open>resolveProvider\<close> handles are the capability return types.\<close>

lemma resolveProvider_alt:
  "resolveProvider r p =
     (case findParams r (ins p) of
        Inl err \<Rightarrow> (r, Some err)
      | Inr args \<Rightarrow>
          if outCount (outs p) < length (outs p) \<and> snd (call p args) \<noteq> None
            then (r\<lparr>invoked := invoked r @ [(p, args)]\<rparr>, snd (call p args))
          else handleResults (r\<lparr>invoked := invoked r @ [(p, args)]\<rparr>) (returns p)
                 (fst (call p args)))"
  by (cases "outs p = []")
     (simp_all add: resolveProvider_def Let_def returns_def outCount_def split: sum.splits)

lemma resolveProvider_ok:
  assumes "resolveProvider r p = (r', None)" "validOut p" "Kind t = KInterface" "listForm r t"
  shows "produceCounts r' t = produceCounts r t - int (count_list (returns p) t)
         \<and> listLen r' t = listLen r t + int (count_list (returns p) t)"
proof -
  from assms(1) obtain args where
    h: "handleResults (r\<lparr>invoked := invoked r @ [(p, args)]\<rparr>) (returns p) (fst (call p args))
        = (r', None)"
    by (auto simp: resolveProvider_alt split: sum.splits if_splits)
  from handleResults_ok[OF h, of t] assms show ?thesis
    by (simp add: validOut_def)
qed

lemma resolveProvider_deferred_state:
  assumes "resolveProvider r p = (r', Some e)" "errors_Is e ErrMissingDependency"
  shows "produceCounts r' = produceCounts r \<and> vals r' = vals r \<and> provideSlice r' = provideSlice r"
  using assms
  by (auto simp: resolveProvider_def Let_def split: sum.splits if_splits
           dest: handleResults_not_missing)

lemma pass_listForm:
  "pass r ps errs w = (r', res) \<Longrightarrow> Kind t = KInterface \<Longrightarrow> listForm r t \<Longrightarrow> listForm r' t"
proof (induction ps arbitrary: r errs w)
  case Nil
  then show ?case by simp
next
  case (Cons p ps)
  then show ?case
    by (fastforce split: prod.splits option.splits if_splits dest: resolveProvider_listForm)
qed

lemma pass_ok:
  "pass r ps errs w = (r', Inr (errs', w')) \<Longrightarrow> list_all validOut ps \<Longrightarrow>
   Kind t = KInterface \<Longrightarrow> listForm r t \<Longrightarrow>
   produceCounts r' t + sum_list (map (supplies t) w) + sum_list (map (supplies t) ps)
     = produceCounts r t + sum_list (map (supplies t) w')
   \<and> listLen r' t + produceCounts r' t = listLen r t + produceCounts r t"
proof (induction ps arbitrary: r errs w)
  case Nil
  then show ?case by simp
next
  case (Cons p ps)
  obtain r1 res where rp: "resolveProvider r p = (r1, res)" by force
  have lf: "listForm r1 t"
    using resolveProvider_listForm[OF rp Cons.prems(3,4)] .
  from Cons.prems have vp: "validOut p" and vps: "list_all validOut ps" by simp_all
  show ?case
  proof (cases res)
    case None
    with Cons.prems rp have "pass r1 ps errs w = (r', Inr (errs', w'))" by simp
    from Cons.IH[OF this vps Cons.prems(3) lf]
         resolveProvider_ok[OF rp[unfolded None] vp Cons.prems(3,4)]
    show ?thesis by (simp add: supplies_def)
  next
    case (Some err)
    with Cons.prems rp have isM: "errors_Is err ErrMissingDependency"
      and "pass r1 ps (errs @ [err]) (w @ [p]) = (r', Inr (errs', w'))"
      by (auto split: if_splits)
    from Cons.IH[OF this(2) vps Cons.prems(3) lf]
         resolveProvider_deferred_state[OF rp[unfolded Some] isM]
    show ?thesis by (simp add: listLen_def)
  qed
qed

lemma build_loop_listForm:
  "build_loop r = (r', errs) \<Longrightarrow> Kind t = KInterface \<Longrightarrow> listForm r t \<Longrightarrow> vals r' t = None"
proof (induction r rule: build_loop.induct)
  case (1 r)
  show ?case
  proof (cases "producers r = []")
    case True
    with "1.prems" show ?thesis
      by (auto simp: build_loop.simps[of r] listForm_def)
  next
    case False
    obtain r1 res where p: "pass r (producers r) [] [] = (r1, res)" by force
    have lf: "listForm r1 t" using pass_listForm[OF p "1.prems"(2,3)] .
    show ?thesis
    proof (cases res)
      case (Inl err)
      with "1.prems" False p lf show ?thesis
        by (auto simp: build_loop.simps[of r] listForm_def)
    next
      case (Inr ew)
      obtain es w where ew: "ew = (es, w)" by force
      show ?thesis
      proof (cases "length w = length (producers r1)")
        case True
        with "1.prems" False p lf Inr ew show ?thesis
          by (auto simp: build_loop.simps[of r] listForm_def)
      next
        case neq: False
        have lf': "listForm (r1\<lparr>producers := w\<rparr>) t" using lf by (simp add: listForm_def)
        from "1.prems"(1) False p Inr ew neq
        have b: "build_loop (r1\<lparr>producers := w\<rparr>) = (r', errs)"
          by (simp add: build_loop.simps[of r])
        from False have pos: "0 < length (producers r)" by simp
        from "1.IH"[OF pos p[symmetric] _ _ neq b "1.prems"(2) lf'] Inr ew
        show ?thesis by simp
      qed
    qed
  qed
qed

lemma pass_waiting_valid:
  assumes "pass r ps errs [] = (r', Inr (errs', w'))" "list_all validOut ps"
  shows "list_all validOut w'"
proof -
  from pass_deferred[OF assms(1)] have "subseq w' ps" by auto
  then have "set w' \<subseteq> set ps" using list_emb_set[of "(=)" w' ps] by auto
  with assms(2) show ?thesis by (auto simp: list_all_iff)
qed

lemma build_loop_ok:
  "build_loop r = (r', []) \<Longrightarrow> Kind t = KInterface \<Longrightarrow> listForm r t \<Longrightarrow>
   list_all validOut (producers r) \<Longrightarrow>
   produceCounts r t = sum_list (map (supplies t) (producers r)) \<Longrightarrow>
   listLen r' t = listLen r t + produceCounts r t"
proof (induction r rule: build_loop.induct)
  case (1 r)
  show ?case
  proof (cases "producers r = []")
    case True
    with "1.prems" show ?thesis
      by (auto simp: build_loop.simps[of r] listLen_def)
  next
    case False
    obtain r1 res where p: "pass r (producers r) [] [] = (r1, res)" by force
    have lf: "listForm r1 t" using pass_listForm[OF p "1.prems"(2,3)] .
    have pr: "producers r1 = producers r" using pass_producers[OF p] .
    show ?thesis
    proof (cases res)
      case (Inl err)
      with "1.prems"(1) False p show ?thesis
        by (simp add: build_loop.simps[of r])
    next
      case (Inr ew)
      obtain es w where ew: "ew = (es, w)" by force
      have p': "pass r (producers r) [] [] = (r1, Inr (es, w))" using p Inr ew by simp
      show ?thesis
      proof (cases "length w = length (producers r1)")
        case True
        with "1.prems"(1) False p' have "es = []"
          by (simp add: build_loop.simps[of r])
        with pass_stall[OF p'] True pr False show ?thesis by simp
      next
        case neq: False
        let ?r2 = "r1\<lparr>producers := w\<rparr>"
        have lf': "listForm ?r2 t" using lf by (simp add: listForm_def)
        from "1.prems"(1) False p' neq
        have b: "build_loop ?r2 = (r', [])"
          by (simp add: build_loop.simps[of r])
        from False have pos: "0 < length (producers r)" by simp
        have v: "list_all validOut (producers ?r2)"
          using pass_waiting_valid[OF p' "1.prems"(4)] by simp
        from pass_ok[OF p' "1.prems"(4) "1.prems"(2,3)] "1.prems"(5)
        have c: "produceCounts ?r2 t = sum_list (map (supplies t) (producers ?r2))"
          and l: "listLen r1 t + produceCounts r1 t = listLen r t + produceCounts r t"
          by simp_all
        from "1.IH"[OF pos p[symmetric] _ _ neq b "1.prems"(2) lf' v c] Inr ew l
        show ?thesis by (simp add: listLen_def)
      qed
    qed
  qed
qed

lemma add_ins_counts:
  "add_ins r ts = (r', res) \<Longrightarrow> produceCounts r' = produceCounts r \<and> vals r' = vals r"
  by (auto simp: add_ins_scan)

lemma add_Func_counts:
  assumes "add r (Func p) = (r', None)"
  shows "produceCounts r' t = produceCounts r t + supplies t p \<and> vals r' = vals r"
proof -
  from assms obtain r1 r2 where
    o: "add_outs r (returns p) = (r1, None)" and i: "add_ins r1 (rev (ins p)) = (r2, None)"
    and r': "r' = r2\<lparr>producers := producers r2 @ [p]\<rparr>"
    by (auto simp: returns_def split: prod.splits option.splits)
  from add_outs_ok[OF add_outs_valid[OF o], of r] o
  have "produceCounts r1 t = produceCounts r t + supplies t p" "vals r1 = vals r"
    by (auto simp: supplies_def)
  with add_ins_counts[OF i] r' show ?thesis by simp
qed

lemma two_registered:
  assumes "add_all new [Func p1, Func p2] = Inr r0"
  shows "producers r0 = [p1, p2] \<and> validOut p1 \<and> validOut p2 \<and> vals r0 = Map.empty
         \<and> produceCounts r0 t = supplies t p1 + supplies t p2"
proof -
  from assms obtain ra where a: "add new (Func p1) = (ra, None)" and b: "add ra (Func p2) = (r0, None)"
    by (auto split: prod.splits option.splits)
  from add_Func_ok[OF a] add_Func_ok[OF b] add_Func_counts[OF a, of t] add_Func_counts[OF b, of t]
  show ?thesis by (simp add: new_def)
qed

lemma two_mains_scenario:
  "snd (build (projr (add_all new [Func (makes n1 [] mainType v1), Func (makes n2 [] mainType v2)]))) = []
   \<and> vals (fst (build (projr (add_all new [Func (makes n1 [] mainType v1), Func (makes n2 [] mainType v2)]))))
        (Slice mainType) = Some (Many [v1, v2])
   \<and> vals (fst (build (projr (add_all new [Func (makes n1 [] mainType v1), Func (makes n2 [] mainType v2)]))))
        mainType = None
   \<and> Run [Func (makes n1 [] mainType v1), Func (makes n2 [] mainType v2)]
       = ErrNoMain # fst (close (new\<lparr>closers := filter isCloser [v1, v2]\<rparr>) [])"
  by (cases "closing v1"; cases "closing v2")
     (auto simp: run_defs makes_def isCloser_def split: signal.splits option.splits)

text \<open>
  Claim C9, as amended. After the registration of two producers that each return \<open>Main\<close>,
  whatever else they take and return: whenever resolution succeeds, the singleton slot of
  \<open>Main\<close> is empty, the list form of \<open>Main\<close> holds every \<open>Main\<close> value the two return (two
  or more), and \<open>run\<close> and \<open>Run\<close> report \<open>ErrNoMain\<close>, followed only by the errors of
  teardown. Resolution does succeed when the two take no parameters and each returns one
  non-nil value and no error: the list form then holds the two values in registration order.
\<close>

theorem two_main_producers_list_form:
  "(add_all new [Func p1, Func p2] = Inr r0 \<and> mainType \<in> set (returns p1)
      \<and> mainType \<in> set (returns p2) \<and> build r0 = (r1, []) \<longrightarrow>
        vals r1 mainType = None
        \<and> (\<exists>vs. vals r1 (Slice mainType) = Some (Many vs) \<and> 2 \<le> length vs
                \<and> length vs = count_list (returns p1) mainType + count_list (returns p2) mainType)
        \<and> fst (fst (run r0)) = ErrNoMain # fst (close r1 [])
        \<and> Run [Func p1, Func p2] = ErrNoMain # fst (close r1 []))
   \<and> snd (build (projr (add_all new [Func (makes n1 [] mainType v1), Func (makes n2 [] mainType v2)]))) = []
   \<and> vals (fst (build (projr (add_all new [Func (makes n1 [] mainType v1), Func (makes n2 [] mainType v2)]))))
        (Slice mainType) = Some (Many [v1, v2])
   \<and> vals (fst (build (projr (add_all new [Func (makes n1 [] mainType v1), Func (makes n2 [] mainType v2)]))))
        mainType = None
   \<and> Run [Func (makes n1 [] mainType v1), Func (makes n2 [] mainType v2)]
       = ErrNoMain # fst (close (new\<lparr>closers := filter isCloser [v1, v2]\<rparr>) [])"
proof (intro conjI impI)
  assume a: "add_all new [Func p1, Func p2] = Inr r0 \<and> mainType \<in> set (returns p1)
      \<and> mainType \<in> set (returns p2) \<and> build r0 = (r1, [])"
  then have reg: "add_all new [Func p1, Func p2] = Inr r0" and bd: "build r0 = (r1, [])"
    and m1: "mainType \<in> set (returns p1)" and m2: "mainType \<in> set (returns p2)"
    by blast+
  from bd have b: "build_loop r0 = (r1, [])" by (simp add: build_def)
  have k: "Kind mainType = KInterface" by (simp add: mainType_def)
  from m1 have "count_list (returns p1) mainType \<noteq> 0" by (simp add: count_list_0_iff)
  then have c1: "1 \<le> count_list (returns p1) mainType" by simp
  from m2 have "count_list (returns p2) mainType \<noteq> 0" by (simp add: count_list_0_iff)
  then have c2: "1 \<le> count_list (returns p2) mainType" by simp
  note t = two_registered[OF reg, of mainType]
  from t c1 c2 have lf: "listForm r0 mainType"
    by (simp add: listForm_def supplies_def)
  from t have v: "list_all validOut (producers r0)" by simp
  from t have c: "produceCounts r0 mainType = sum_list (map (supplies mainType) (producers r0))"
    by simp
  show none: "vals r1 mainType = None"
    using build_loop_listForm[OF b k lf] .
  from build_loop_ok[OF b k lf v c] t
  have len: "listLen r1 mainType = supplies mainType p1 + supplies mainType p2"
    by (simp add: listLen_def)
  show "\<exists>vs. vals r1 (Slice mainType) = Some (Many vs) \<and> 2 \<le> length vs
                \<and> length vs = count_list (returns p1) mainType + count_list (returns p2) mainType"
    using len c1 c2 by (auto simp: listLen_def supplies_def split: option.splits rvalue.splits)
  show r: "fst (fst (run r0)) = ErrNoMain # fst (close r1 [])"
    using bd none close_errs[of r1 "[ErrNoMain]"] by (simp add: run_def)
  show "Run [Func p1, Func p2] = ErrNoMain # fst (close r1 [])"
    using reg r by (simp add: Run_def del: add_all.simps)
qed (insert two_mains_scenario[of n1 v1 n2 v2], blast+)

theorem two_main_producers_list_form_witness:
  "Run [Func (makes ''newMain'' [] mainType (Obj ''m1'' NotCloser (Some None))),
        Func (makes ''newMain'' [] mainType (Obj ''m2'' NotCloser (Some None)))]
     = [ErrNoMain]"
proof -
  let ?p1 = "makes ''newMain'' [] mainType (Obj ''m1'' NotCloser (Some None))"
  let ?p2 = "makes ''newMain'' [] mainType (Obj ''m2'' NotCloser (Some None))"
  obtain r0 where a: "add_all new [Func ?p1, Func ?p2] = Inr r0"
    by (simp add: new_def makes_def outCount_def errorType_def mainType_def)
  have r0: "r0 = projr (add_all new [Func ?p1, Func ?p2])"
    by (simp only: a sum.sel)
  have m: "mainType \<in> set (returns ?p1)" "mainType \<in> set (returns ?p2)"
    by (simp_all add: returns_def makes_def outCount_def errorType_def mainType_def)
  note s = two_mains_scenario[of "''newMain''" "Obj ''m1'' NotCloser (Some None)"
                                "''newMain''" "Obj ''m2'' NotCloser (Some None)", folded r0]
  obtain r1 where b: "build r0 = (r1, [])"
    using s by (cases "build r0") simp
  have c: "closers r1 = []"
    using b unfolding r0 by (auto simp: run_defs makes_def)
  from two_main_producers_list_form[of ?p1 ?p2 r0 r1] a m b
  have "Run [Func ?p1, Func ?p2] = ErrNoMain # fst (close r1 [])"
    by blast
  with c show ?thesis by (simp add: close_def)
qed

text \<open>
  The claim as stated fails when one of the two producers of \<open>Main\<close> returns an error:
  resolution does not succeed, and \<open>Run\<close> returns that error and no \<open>ErrNoMain\<close>.
\<close>

theorem two_main_producers_counterexample:
  "Run [Func (makes ''newMain'' [] mainType (Obj ''m'' NotCloser (Some None))),
        Func \<lparr>fname = ''newMainFails'', ins = [], outs = [mainType, errorType],
               call = (\<lambda>args. ([None], Some (New ''boom'')))\<rparr>]
     = [New ''boom'']
   \<and> snd (build (projr (add_all new
        [Func (makes ''newMain'' [] mainType (Obj ''m'' NotCloser (Some None))),
         Func \<lparr>fname = ''newMainFails'', ins = [], outs = [mainType, errorType],
                call = (\<lambda>args. ([None], Some (New ''boom'')))\<rparr>])))
     = [New ''boom'']
   \<and> New ''boom'' \<noteq> ErrNoMain"
  by (simp add: run_defs makes_def ErrNoMain_def)

section \<open>How often a producer is called\<close>

lemma resolveProvider_calls:
  assumes "resolveProvider r p = (r', res)" "neverRaisesMissing p"
  shows "(case res of
            Some e \<Rightarrow> if errors_Is e ErrMissingDependency then calls r' q = calls r q
                      else calls r' q \<le> calls r q + (if p = q then 1 else 0)
          | None \<Rightarrow> calls r' q = calls r q + (if p = q then 1 else 0))"
proof (cases "findParams r (ins p)")
  case (Inl err)
  with assms(1) show ?thesis by (auto simp: resolveProvider_alt)
next
  case (Inr args)
  let ?r1 = "r\<lparr>invoked := invoked r @ [(p, args)]\<rparr>"
  have c1: "calls ?r1 q = calls r q + (if p = q then 1 else 0)"
    by (simp add: calls_def)
  show ?thesis
  proof (cases "outCount (outs p) < length (outs p) \<and> snd (call p args) \<noteq> None")
    case True
    with assms Inr c1 show ?thesis
      by (auto simp: resolveProvider_alt neverRaisesMissing_def)
  next
    case False
    with assms(1) Inr have h: "handleResults ?r1 (returns p) (fst (call p args)) = (r', res)"
      by (auto simp: resolveProvider_alt)
    from handleResults_invoked[OF h] have "calls r' q = calls ?r1 q"
      by (simp add: calls_def)
    with c1 h show ?thesis
      by (cases res) (auto dest: handleResults_not_missing)
  qed
qed

lemma pass_calls:
  "pass r ps errs w = (r', res) \<Longrightarrow> list_all neverRaisesMissing ps \<Longrightarrow>
   (case res of
      Inr ew \<Rightarrow> calls r' q + count_list (snd ew) q = calls r q + count_list w q + count_list ps q
    | Inl e \<Rightarrow> calls r' q \<le> calls r q + count_list ps q)"
proof (induction ps arbitrary: r errs w)
  case Nil
  then show ?case by auto
next
  case (Cons p ps)
  obtain r1 res1 where rp: "resolveProvider r p = (r1, res1)" by force
  from Cons.prems have np: "neverRaisesMissing p" and nps: "list_all neverRaisesMissing ps"
    by simp_all
  note c = resolveProvider_calls[OF rp np, of q]
  show ?case
  proof (cases res1)
    case None
    with Cons.prems rp have "pass r1 ps errs w = (r', res)" by simp
    from Cons.IH[OF this nps] c None show ?thesis
      by (auto split: sum.splits)
  next
    case (Some err)
    show ?thesis
    proof (cases "errors_Is err ErrMissingDependency")
      case True
      with Cons.prems rp Some have "pass r1 ps (errs @ [err]) (w @ [p]) = (r', res)" by simp
      from Cons.IH[OF this nps] c Some True show ?thesis
        by (auto split: sum.splits)
    next
      case False
      with Cons.prems rp Some c show ?thesis by auto
    qed
  qed
qed

lemma invoked_at_most_once_without_missing_errors:
  "list_all neverRaisesMissing (producers r) \<Longrightarrow>
   calls (fst (build_loop r)) q \<le> calls r q + count_list (producers r) q"
proof (induction r rule: build_loop.induct)
  case (1 r)
  show ?case
  proof (cases "producers r = []")
    case True
    then show ?thesis by (simp add: build_loop.simps[of r] calls_def)
  next
    case False
    obtain r1 res where p: "pass r (producers r) [] [] = (r1, res)" by force
    note c = pass_calls[OF p "1.prems", of q]
    show ?thesis
    proof (cases res)
      case (Inl err)
      with False p c show ?thesis by (simp add: build_loop.simps[of r])
    next
      case (Inr ew)
      obtain es w where ew: "ew = (es, w)" by force
      have p': "pass r (producers r) [] [] = (r1, Inr (es, w))" using p Inr ew by simp
      show ?thesis
      proof (cases "length w = length (producers r1)")
        case True
        with False p' c Inr ew show ?thesis by (simp add: build_loop.simps[of r])
      next
        case neq: False
        let ?r2 = "r1\<lparr>producers := w\<rparr>"
        from False have pos: "0 < length (producers r)" by simp
        from pass_deferred[OF p'] have "subseq w (producers r)" by auto
        then have "set w \<subseteq> set (producers r)" using list_emb_set[of "(=)" w "producers r"] by auto
        with "1.prems" have v: "list_all neverRaisesMissing (producers ?r2)"
          by (auto simp: list_all_iff)
        have e: "build_loop r = build_loop ?r2"
          using False p' neq by (simp add: build_loop.simps[of r])
        from "1.IH"[OF pos p[symmetric] _ _ neq v] Inr ew
        have "calls (fst (build_loop ?r2)) q \<le> calls ?r2 q + count_list w q" by simp
        with c Inr ew e show ?thesis by (simp add: calls_def)
      qed
    qed
  qed
qed

text \<open>
  Claim C8. The lemma above gives the claim for producers none of whose calls returns an
  error that wraps \<open>ErrMissingDependency\<close>: \<open>build\<close> calls each registered producer at most
  once. The claim fails without that condition: \<open>build\<close> tests the result of
  \<open>resolveProvider\<close> with \<open>errors.Is(err, ErrMissingDependency)\<close>, whether the error comes
  from the parameter lookup or from the producer's own call. Here the function \<open>flaky\<close>
  returns \<open>ErrMissingDependency\<close>: it is called in the first pass, put back among the
  waiting producers, and called again in the second pass.
\<close>

theorem producer_error_missing_dependency_called_twice:
  "map (\<lambda>c. fname (fst c))
     (invoked (snd (run (projr (add_all new
        [Func \<lparr>fname = ''flaky'', ins = [], outs = [errorType],
                call = (\<lambda>args. ([], Some ErrMissingDependency))\<rparr>,
         Func (makes ''new2'' [] T2 (Obj ''s2'' NotCloser None))])))))
     = [''flaky'', ''new2'', ''flaky'']
   \<and> Run [Func \<lparr>fname = ''flaky'', ins = [], outs = [errorType],
                  call = (\<lambda>args. ([], Some ErrMissingDependency))\<rparr>,
           Func (makes ''new2'' [] T2 (Obj ''s2'' NotCloser None))]
     = [ErrMissingDependency]"
  by (simp add: run_defs makes_def T2_def)

section \<open>Teardown follows production\<close>

lemma saveIfCloser_closers:
  "closers (saveIfCloser r v) = closers r @ (if isCloser v then [v] else [])"
  by (simp add: saveIfCloser_def isCloser_def split: closing.splits)

lemma saveIfCloser_produced [simp]: "produced (saveIfCloser r v) = produced r"
  by (simp add: saveIfCloser_def split: closing.splits)

lemma handleProvidedValue_recorded:
  "handleProvidedValue r t v = (r', res) \<Longrightarrow> closersRecorded r \<Longrightarrow> closersRecorded r'"
  by (auto simp: handleProvidedValue_def closersRecorded_def Let_def saveIfCloser_closers
           split: if_splits option.splits rvalue.splits)

lemma handleProvidedValue_stored:
  assumes "handleProvidedValue r t v = (r', None)"
  shows "produced r' = produced r @ [v]
         \<and> closers r' = closers r @ (if isCloser v then [v] else [])
         \<and> (vals r' t = Some (Single v) \<or> (\<exists>xs. vals r' (Slice t) = Some (Many (xs @ [v]))))"
  using assms
  by (auto simp: handleProvidedValue_def Let_def saveIfCloser_closers
           split: if_splits option.splits rvalue.splits)

lemma handleResults_recorded:
  "handleResults r ts results = (r', res) \<Longrightarrow> closersRecorded r \<Longrightarrow> closersRecorded r'"
proof (induction ts arbitrary: r results)
  case Nil
  then show ?case by simp
next
  case (Cons t ts)
  then show ?case
    by (fastforce split: prod.splits option.splits dest: handleProvidedValue_recorded)
qed

lemma handleResults_produced:
  "handleResults r ts results = (r', None) \<Longrightarrow>
   produced r' = produced r @ map the (take (length ts) results)"
proof (induction ts arbitrary: r results)
  case Nil
  then show ?case by simp
next
  case (Cons t ts)
  from Cons.prems obtain v r1 where
    v: "(case results of [] \<Rightarrow> None | x # xs \<Rightarrow> x) = Some v"
    and h: "handleProvidedValue r t v = (r1, None)"
    and rest: "handleResults r1 ts (tl results) = (r', None)"
    by (auto split: option.splits prod.splits)
  from v obtain xs where r: "results = Some v # xs" by (cases results) auto
  from handleProvidedValue_stored[OF h] Cons.IH[OF rest] r show ?case by simp
qed

lemma closersRecorded_invoked [simp]:
  "closersRecorded (r\<lparr>invoked := x\<rparr>) = closersRecorded r"
  by (simp add: closersRecorded_def)

lemma closersRecorded_producers [simp]:
  "closersRecorded (r\<lparr>producers := x\<rparr>) = closersRecorded r"
  by (simp add: closersRecorded_def)

lemma resolveProvider_recorded:
  "resolveProvider r p = (r', res) \<Longrightarrow> closersRecorded r \<Longrightarrow> closersRecorded r'"
  by (auto simp: resolveProvider_alt split: sum.splits if_splits dest: handleResults_recorded)

lemma resolveProvider_produced:
  assumes "resolveProvider r p = (r', None)"
  shows "\<exists>args. invoked r' = invoked r @ [(p, args)]
           \<and> produced r' = produced r @ map the (take (length (returns p)) (fst (call p args)))"
proof -
  from assms obtain args where
    h: "handleResults (r\<lparr>invoked := invoked r @ [(p, args)]\<rparr>) (returns p) (fst (call p args))
        = (r', None)"
    by (auto simp: resolveProvider_alt split: sum.splits if_splits)
  from handleResults_produced[OF h] handleResults_invoked[OF h] show ?thesis by auto
qed

lemma pass_recorded:
  "pass r ps errs w = (r', res) \<Longrightarrow> closersRecorded r \<Longrightarrow> closersRecorded r'"
proof (induction ps arbitrary: r errs w)
  case Nil
  then show ?case by simp
next
  case (Cons p ps)
  then show ?case
    by (fastforce split: prod.splits option.splits if_splits dest: resolveProvider_recorded)
qed

lemma build_loop_recorded:
  "closersRecorded r \<Longrightarrow> closersRecorded (fst (build_loop r))"
proof (induction r rule: build_loop.induct)
  case (1 r)
  show ?case
  proof (cases "producers r = []")
    case True
    with "1.prems" show ?thesis
      by (simp add: build_loop.simps[of r] closersRecorded_def)
  next
    case False
    obtain r1 res where p: "pass r (producers r) [] [] = (r1, res)" by force
    have rec: "closersRecorded r1" using pass_recorded[OF p "1.prems"] .
    show ?thesis
    proof (cases res)
      case (Inl err)
      with False p rec show ?thesis by (simp add: build_loop.simps[of r])
    next
      case (Inr ew)
      obtain es w where ew: "ew = (es, w)" by force
      show ?thesis
      proof (cases "length w = length (producers r1)")
        case True
        with False p rec Inr ew show ?thesis by (simp add: build_loop.simps[of r])
      next
        case neq: False
        from False have pos: "0 < length (producers r)" by simp
        have e: "build_loop r = build_loop (r1\<lparr>producers := w\<rparr>)"
          using False p Inr ew neq by (simp add: build_loop.simps[of r])
        from "1.IH"[OF pos p[symmetric] _ _ neq] Inr ew rec e show ?thesis by simp
      qed
    qed
  qed
qed

lemma run_final:
  "closers (snd (run r)) = closers (fst (build r))
   \<and> produced (snd (run r)) = produced (fst (build r))
   \<and> fst (run r) = close (snd (run r)) (snd (build r) @ mainErrors (snd (build r)) (fst (build r)))"
  by (cases "build r")
     (auto simp: run_def mainErrors_def Let_def split: option.splits rvalue.splits)

lemma run_recorded:
  assumes "closersRecorded r"
  shows "closers (snd (run r)) = filter isCloser (produced (snd (run r)))"
  using build_loop_recorded[OF assms] run_final[of r]
  by (simp add: build_def closersRecorded_def)

lemma add_outs_frame:
  "add_outs r ts = (r', res) \<Longrightarrow> closers r' = closers r \<and> produced r' = produced r"
  by (induction ts arbitrary: r) (auto split: if_splits)

lemma add_frame:
  assumes "add r a = (r', res)"
  shows "closers r' = closers r \<and> produced r' = produced r"
proof (cases a)
  case (Func p)
  obtain r1 res1 where o: "add_outs r (take (outCount (outs p)) (outs p)) = (r1, res1)" by force
  obtain r2 res2 where i: "add_ins r1 (rev (ins p)) = (r2, res2)" by force
  from i have "closers r2 = closers r1 \<and> produced r2 = produced r1"
    by (auto simp: add_ins_scan)
  with add_outs_frame[OF o] assms Func o i show ?thesis
    by (auto split: option.splits)
qed (use assms in auto)

lemma add_all_fresh:
  "add_all r items = Inr r' \<Longrightarrow> closers r' = closers r \<and> produced r' = produced r"
proof (induction items arbitrary: r)
  case Nil
  then show ?case by simp
next
  case (Cons a items)
  from Cons.prems obtain r1 where a: "add r a = (r1, None)" and rest: "add_all r1 items = Inr r'"
    by (auto split: prod.splits option.splits)
  from add_frame[OF a] Cons.IH[OF rest] show ?case by simp
qed

text \<open>
  Claim C3. Every returned value that \<open>handleProvidedValue\<close> accepts is stored, added to the
  production record and, when it is a closer, appended to \<open>closers\<close>, whether it goes to the
  singleton or to the list form; a successful attempt adds the values its call returned, in
  result order. So after every run that starts with the two records in step (as they are
  after registration on a new runner) \<open>closers\<close> is the closers among all the values
  produced, in production order, and the \<open>Close\<close> calls of the run are, in call order, an
  initial part of those closers read backwards (last produced first): all of them when no
  closer makes \<open>close\<close> return early. The same holds for \<open>close\<close> on any record. In
  particular, with P1 (no parameters, makes C1) and P2 (needs C1, makes C2), both objects
  closers and the two registered in either order: the object made by P2 is closed first and
  the one made by P1 second (or not at all, when the first makes \<open>close\<close> return early).
\<close>

theorem close_reverse_production_order:
  "closers (saveIfCloser r v) = closers r @ (if isCloser v then [v] else [])
   \<and> (handleProvidedValue r t v = (r1, None) \<longrightarrow>
        produced r1 = produced r @ [v]
        \<and> closers r1 = closers r @ (if isCloser v then [v] else [])
        \<and> (vals r1 t = Some (Single v) \<or> (\<exists>xs. vals r1 (Slice t) = Some (Many (xs @ [v])))))
   \<and> (resolveProvider r p = (r2, None) \<longrightarrow>
        (\<exists>args. invoked r2 = invoked r @ [(p, args)]
           \<and> produced r2 = produced r @ map the (take (length (returns p)) (fst (call p args)))))
   \<and> (closers r = filter isCloser (produced r) \<longrightarrow>
        closers (snd (run r)) = filter isCloser (produced (snd (run r)))
        \<and> prefix (snd (fst (run r))) (rev (filter isCloser (produced (snd (run r)))))
        \<and> (\<not> list_ex aborts (produced (snd (run r))) \<longrightarrow>
             snd (fst (run r)) = rev (filter isCloser (produced (snd (run r))))))
   \<and> (add_all new items = Inr r0 \<longrightarrow>
        prefix (Run_closed items) (rev (filter isCloser (produced (snd (run r0)))))
        \<and> (\<not> list_ex aborts (produced (snd (run r0))) \<longrightarrow>
             Run_closed items = rev (filter isCloser (produced (snd (run r0))))))
   \<and> prefix (snd (close r errs)) (rev (filter isCloser (closers r)))
   \<and> (\<not> list_ex aborts (closers r) \<longrightarrow>
        snd (close r errs) = rev (filter isCloser (closers r)))
   \<and> (isCloser c1 \<and> isCloser c2 \<longrightarrow>
        Run_closed [Func (makes ''P1'' [] (Interface ''C1'') c1),
                    Func (makes ''P2'' [Interface ''C1''] (Interface ''C2'') c2)]
          = (if aborts c2 then [c2] else [c2, c1])
        \<and> Run_closed [Func (makes ''P2'' [Interface ''C1''] (Interface ''C2'') c2),
                      Func (makes ''P1'' [] (Interface ''C1'') c1)]
          = (if aborts c2 then [c2] else [c2, c1]))"
proof -
  have pre: "prefix (snd (close r errs)) (rev (filter isCloser (closers r)))" for r errs
    using close_loop_prefix[of "rev (closers r)" errs "[]"] by (simp add: close_def rev_filter)
  have full: "snd (close r errs) = rev (filter isCloser (closers r))"
    if "\<not> list_ex aborts (closers r)" for r errs
    using that close_loop_closed[of "rev (closers r)" errs "[]"]
    by (simp add: close_def rev_filter list_ex_iff)
  have runs: "closers (snd (run r)) = filter isCloser (produced (snd (run r)))
        \<and> prefix (snd (fst (run r))) (rev (filter isCloser (produced (snd (run r)))))
        \<and> (\<not> list_ex aborts (produced (snd (run r))) \<longrightarrow>
             snd (fst (run r)) = rev (filter isCloser (produced (snd (run r)))))"
    if rec: "closers r = filter isCloser (produced r)" for r
  proof -
    let ?rf = "snd (run r)"
    let ?errs = "snd (build r) @ mainErrors (snd (build r)) (fst (build r))"
    have c: "closers ?rf = filter isCloser (produced ?rf)"
      using run_recorded[of r] rec by (simp add: closersRecorded_def)
    have f: "fst (run r) = close ?rf ?errs" using run_final[of r] by simp
    have na: "\<not> list_ex aborts (closers ?rf)" if "\<not> list_ex aborts (produced ?rf)"
      using that c by (auto simp: list_ex_iff)
    from pre[of ?rf ?errs] full[of ?rf ?errs] c f na show ?thesis by auto
  qed
  have Runs: "prefix (Run_closed items) (rev (filter isCloser (produced (snd (run r0)))))
        \<and> (\<not> list_ex aborts (produced (snd (run r0))) \<longrightarrow>
             Run_closed items = rev (filter isCloser (produced (snd (run r0)))))"
    if reg: "add_all new items = Inr r0"
  proof -
    from add_all_fresh[OF reg] have "closers r0 = filter isCloser (produced r0)"
      by (simp add: new_def)
    from runs[OF this] reg show ?thesis by (simp add: Run_closed_def)
  qed
  show ?thesis
    using saveIfCloser_closers[of r v] handleProvidedValue_stored[of r t v r1]
          resolveProvider_produced[of r p r2] runs[of r] Runs pre[of r errs] full[of r errs]
          scenario_P1_P2[of c1 c2] scenario_P2_P1[of c1 c2]
    by blast
qed

theorem close_reverse_production_order_witness:
  "Run_closed [Func (makes ''new1ConsumeSice2'' [Slice T2] T1 (Obj ''testStruct1'' NotCloser None)),
               Func (makes ''new2'' [] T2 (Obj ''testStruct2'' NotCloser None)),
               Func (makes ''new2Closer'' [] T2
                       (Obj ''testStruct2Closer'' (Closer (Some (New ''error from Closer.Close''))) None)),
               Func (makes ''new2DelayCloser'' [] T2
                       (Obj ''testStruct2DelayCloser''
                          (DelayCloser (Sends (Some (New ''error from DelayCloser.Close'')))) None)),
               Func (makes ''newMain'' [T1] mainType (Obj ''testMain'' NotCloser (Some None)))]
     = [Obj ''testStruct2DelayCloser''
          (DelayCloser (Sends (Some (New ''error from DelayCloser.Close'')))) None,
        Obj ''testStruct2Closer'' (Closer (Some (New ''error from Closer.Close''))) None]
   \<and> snd (close (new\<lparr>closers := [Obj ''c1'' (Closer None) None,
                                  Obj ''c2'' (DelayCloser (Sends None)) None]\<rparr>) [])
     = [Obj ''c2'' (DelayCloser (Sends None)) None, Obj ''c1'' (Closer None) None]
   \<and> Run_closed [Func (makes ''P1'' [] (Interface ''C1'') (Obj ''c1'' (Closer None) None)),
                 Func (makes ''P2'' [Interface ''C1''] (Interface ''C2'')
                         (Obj ''c2'' (DelayCloser (Sends None)) None))]
     = [Obj ''c2'' (DelayCloser (Sends None)) None, Obj ''c1'' (Closer None) None]"
proof -
  let ?items = "[Func (makes ''new1ConsumeSice2'' [Slice T2] T1 (Obj ''testStruct1'' NotCloser None)),
               Func (makes ''new2'' [] T2 (Obj ''testStruct2'' NotCloser None)),
               Func (makes ''new2Closer'' [] T2
                       (Obj ''testStruct2Closer'' (Closer (Some (New ''error from Closer.Close''))) None)),
               Func (makes ''new2DelayCloser'' [] T2
                       (Obj ''testStruct2DelayCloser''
                          (DelayCloser (Sends (Some (New ''error from DelayCloser.Close'')))) None)),
               Func (makes ''newMain'' [T1] mainType (Obj ''testMain'' NotCloser (Some None)))]"
  let ?r0 = "projr (add_all new ?items)"
  have a: "add_all new ?items = Inr ?r0"
    by (simp add: new_def makes_def outCount_def errorType_def mainType_def T1_def T2_def)
  have p: "produced (snd (run ?r0))
           = [Obj ''testStruct2'' NotCloser None,
              Obj ''testStruct2Closer'' (Closer (Some (New ''error from Closer.Close''))) None,
              Obj ''testStruct2DelayCloser''
                (DelayCloser (Sends (Some (New ''error from DelayCloser.Close'')))) None,
              Obj ''testStruct1'' NotCloser None,
              Obj ''testMain'' NotCloser (Some None)]"
    by (simp add: run_defs makes_def T1_def T2_def)
  from close_reverse_production_order
         [of "new\<lparr>closers := [Obj ''c1'' (Closer None) None,
                                Obj ''c2'' (DelayCloser (Sends None)) None]\<rparr>"
             "Obj ''c1'' (Closer None) None" "Interface ''C1''" new
             "makes ''P1'' [] (Interface ''C1'') (Obj ''c1'' (Closer None) None)" new
             ?items ?r0 "[]"
             "Obj ''c1'' (Closer None) None" "Obj ''c2'' (DelayCloser (Sends None)) None"] a p
  show ?thesis
    by (simp add: isCloser_def aborts_def)
qed

end
